theory Spec2Isabelle
  imports Complex_Main "HOL-Library.Multiset"
begin

section \<open>ezmesh geometry: the two-phase mesh transaction protocol\<close>

text \<open>
  A shallow embedding of \<^verbatim>\<open>src/ezmesh/geometry.py\<close>.

  \<^item> Python objects live in a store: one total function per class from addresses to
    the object's fields. A Python reference always denotes an object, so a lookup never
    fails; sharing (a Point used by several Lines) is sharing of an address.
  \<^item> The gmsh kernel is an external collaborator. Its state is the list of calls it has
    received, and the integer it hands back for a call is a function \<open>reply\<close> of that
    history and the call: every deterministic kernel is an instance. Kernel exceptions
    are outside the model: the model describes the runs in which the kernel answers
    every call.
  \<^item> Python floats are passed through unchanged and only ever tested for truthiness
    (\<open>x != 0\<close>), so they are modelled as \<open>real\<close>.
  \<^item> IndexError and TypeError raised by the Python runtime in this file's own code are
    values of the type \<open>error\<close>.
\<close>

subsection \<open>Values, errors and the kernel\<close>

type_synonym addr = nat

datatype error = IndexError | TypeError

definition ebind :: "error + 'a \<Rightarrow> ('a \<Rightarrow> error + 'b) \<Rightarrow> error + 'b" where
  "ebind m f = (case m of Inl e \<Rightarrow> Inl e | Inr v \<Rightarrow> f v)"

text \<open>\<^verbatim>\<open>xs[i]\<close> for \<open>i \<ge> 0\<close>: IndexError out of range.\<close>

definition index :: "'a list \<Rightarrow> nat \<Rightarrow> error + 'a" where
  "index xs i = (if i < length xs then Inr (xs ! i) else Inl IndexError)"

datatype DimType = POINT | CURVE | SURFACE | VOLUME

fun DimType_value :: "DimType \<Rightarrow> int" where
  "DimType_value POINT = 0"
| "DimType_value CURVE = 1"
| "DimType_value SURFACE = 2"
| "DimType_value VOLUME = 3"

text \<open>The Python value handed to \<^verbatim>\<open>field.setNumber\<close>: a float, an int or a bool.\<close>

datatype pynum = PyFloat real | PyInt int | PyBool bool

text \<open>
  The calls this file makes into gmsh. An argument that the code reads from an
  entity's \<^verbatim>\<open>tag\<close> attribute has type \<open>int option\<close>: the attribute is \<^verbatim>\<open>None\<close>
  until the entity is constructed, and \<^verbatim>\<open>cast(int, ...)\<close> does nothing at run time.
\<close>

datatype kernel_call =
    Initialize
  | Finalize
  | AddPoint real real real real
  | AddLine "int option" "int option"
  | AddCurveLoop "int option list"
  | AddPlaneSurface "int option list"
  | Synchronize
  | SetTransfiniteCurve "int option" int string real
  | SetTransfiniteSurface "int option" "int option list"
  | SetRecombine int "int option"
  | AddPhysicalGroup int "int option list"
  | SetPhysicalName int int string
  | FieldAdd string
  | FieldSetNumbers int string "int option list"
  | FieldSetNumber int string pynum
  | FieldSetAsBoundaryLayer int
  | MeshGenerate
  | OptionSetNumber string real
  | Write string

record kernel =
  calls :: "kernel_call list"
  reply :: "kernel_call list \<Rightarrow> kernel_call \<Rightarrow> int"

definition kernel_do :: "kernel_call \<Rightarrow> kernel \<Rightarrow> int \<times> kernel" where
  "kernel_do c k = (reply k (calls k) c, k\<lparr>calls := calls k @ [c]\<rparr>)"

definition kernel_void :: "kernel_call \<Rightarrow> kernel \<Rightarrow> kernel" where
  "kernel_void c k = snd (kernel_do c k)"

subsection \<open>The classes\<close>

record MeshTransaction =
  tag :: "int option"
  before_sync_initiated :: bool
  after_sync_initiated :: bool

definition MeshTransaction_init :: MeshTransaction where
  "MeshTransaction_init =
     \<lparr>tag = None, before_sync_initiated = False, after_sync_initiated = False\<rparr>"

definition MeshTransaction_before_sync ::
  "'a MeshTransaction_scheme \<Rightarrow> 'a MeshTransaction_scheme" where
  "MeshTransaction_before_sync ob = ob\<lparr>before_sync_initiated := True\<rparr>"

definition MeshTransaction_after_sync ::
  "'a MeshTransaction_scheme \<Rightarrow> 'a MeshTransaction_scheme" where
  "MeshTransaction_after_sync ob = ob\<lparr>after_sync_initiated := True\<rparr>"

record Point = MeshTransaction +
  coord :: "real list"
  mesh_size :: real
  point_label :: "int option"
  point_x :: real
  point_y :: real
  point_z :: real

text \<open>
  A \<^verbatim>\<open>TransfiniteLine\<close> is a \<^verbatim>\<open>Line\<close> with three more fields and its own
  \<^verbatim>\<open>after_sync\<close>: the field \<open>transfinite\<close> is \<open>Some\<close> for the subclass.
\<close>

record TransfiniteLine =
  cell_count :: int
  mesh_type :: string
  coeff :: real

record Line = MeshTransaction +
  line_start :: addr
  line_end :: addr
  line_label :: "string option"
  transfinite :: "TransfiniteLine option"

record CurveLoop = MeshTransaction +
  loop_lines :: "addr list"
  loop_fields :: "addr list"
  line_tags :: "int option list"
  loop_points :: "addr list"

text \<open>
  A \<^verbatim>\<open>TransfinitePlaneSurface\<close> is a \<^verbatim>\<open>PlaneSurface\<close> with \<^verbatim>\<open>corners\<close>: the
  field \<open>corners\<close> is \<open>Some\<close> for the subclass. The attribute
  \<^verbatim>\<open>transfinite_corners\<close> is never read by the code (a corner there is a Point or an
  int).
\<close>

record PlaneSurface = MeshTransaction +
  outlines :: "addr list"
  holes :: "addr list"
  surface_label :: "string option"
  is_quad_mesh :: bool
  transfinite_corners :: "(addr + int) list option"
  curve_loops :: "addr list"
  corners :: "addr list option"

text \<open>
  A \<^verbatim>\<open>BoundaryLayer\<close> is a \<^verbatim>\<open>Field\<close> with seven more attributes and its own
  \<^verbatim>\<open>after_sync\<close>: the field \<open>boundary_layer\<close> is \<open>Some\<close> for the subclass.
\<close>

record BoundaryLayer =
  aniso_max :: "real option"
  hfar :: "real option"
  hwall_n :: "real option"
  ratio :: "real option"
  thickness :: "real option"
  intersect_metrics :: bool
  bl_is_quad_mesh :: bool

record Field = MeshTransaction +
  boundary_layer :: "BoundaryLayer option"

subsection \<open>The object store\<close>

record heap =
  point_at :: "addr \<Rightarrow> Point"
  line_at :: "addr \<Rightarrow> Line"
  loop_at :: "addr \<Rightarrow> CurveLoop"
  surface_at :: "addr \<Rightarrow> PlaneSurface"
  field_at :: "addr \<Rightarrow> Field"
  next_addr :: addr

type_synonym state = "heap \<times> kernel"

definition upd_point :: "addr \<Rightarrow> (Point \<Rightarrow> Point) \<Rightarrow> heap \<Rightarrow> heap" where
  "upd_point a f h = h\<lparr>point_at := (point_at h)(a := f (point_at h a))\<rparr>"

definition upd_line :: "addr \<Rightarrow> (Line \<Rightarrow> Line) \<Rightarrow> heap \<Rightarrow> heap" where
  "upd_line a f h = h\<lparr>line_at := (line_at h)(a := f (line_at h a))\<rparr>"

definition upd_loop :: "addr \<Rightarrow> (CurveLoop \<Rightarrow> CurveLoop) \<Rightarrow> heap \<Rightarrow> heap" where
  "upd_loop a f h = h\<lparr>loop_at := (loop_at h)(a := f (loop_at h a))\<rparr>"

definition upd_surface :: "addr \<Rightarrow> (PlaneSurface \<Rightarrow> PlaneSurface) \<Rightarrow> heap \<Rightarrow> heap" where
  "upd_surface a f h = h\<lparr>surface_at := (surface_at h)(a := f (surface_at h a))\<rparr>"

definition upd_field :: "addr \<Rightarrow> (Field \<Rightarrow> Field) \<Rightarrow> heap \<Rightarrow> heap" where
  "upd_field a f h = h\<lparr>field_at := (field_at h)(a := f (field_at h a))\<rparr>"

subsection \<open>Phase 1: \<^verbatim>\<open>before_sync\<close>\<close>

text \<open>\<^verbatim>\<open>Point.before_sync\<close> (lines 104-107).\<close>

fun Point_before_sync :: "addr \<Rightarrow> state \<Rightarrow> state" where
  "Point_before_sync a (h, k) =
     (let p = point_at h a;
          (h1, k1) =
            (if \<not> before_sync_initiated p
             then (let (t, k') = kernel_do
                         (AddPoint (point_x p) (point_y p) (point_z p) (mesh_size p)) k
                   in (upd_point a (\<lambda>ob. ob\<lparr>tag := Some t\<rparr>) h, k'))
             else (h, k))
      in (upd_point a MeshTransaction_before_sync h1, k1))"

text \<open>\<^verbatim>\<open>Line.before_sync\<close> (lines 125-130), inherited by \<^verbatim>\<open>TransfiniteLine\<close>.\<close>

fun Line_before_sync :: "addr \<Rightarrow> state \<Rightarrow> state" where
  "Line_before_sync a (h, k) =
     (let ln = line_at h a;
          (h4, k4) =
            (if \<not> before_sync_initiated ln
             then (let (h1, k1) = Point_before_sync (line_start ln) (h, k);
                       (h2, k2) = Point_before_sync (line_end (line_at h1 a)) (h1, k1);
                       (t, k3) = kernel_do
                         (AddLine (tag (point_at h2 (line_start (line_at h2 a))))
                                  (tag (point_at h2 (line_end (line_at h2 a))))) k2
                   in (upd_line a (\<lambda>ob. ob\<lparr>tag := Some t\<rparr>) h2, k3))
             else (h, k))
      in (upd_line a MeshTransaction_before_sync h4, k4))"

text \<open>\<^verbatim>\<open>Field.before_sync\<close> (lines 78-79), inherited by \<^verbatim>\<open>BoundaryLayer\<close>.\<close>

fun Field_before_sync :: "addr \<Rightarrow> addr \<Rightarrow> state \<Rightarrow> state" where
  "Field_before_sync f curve_loop (h, k) = (upd_field f MeshTransaction_before_sync h, k)"

text \<open>\<^verbatim>\<open>CurveLoop.before_sync\<close> (lines 172-181); first the body of its loop over the lines.\<close>

fun CurveLoop_before_sync_line :: "addr \<Rightarrow> addr \<Rightarrow> state \<Rightarrow> state" where
  "CurveLoop_before_sync_line c l (h, k) =
     (let (h1, k1) = Line_before_sync l (h, k)
      in (upd_loop c (\<lambda>ob. ob\<lparr>line_tags := line_tags ob @ [tag (line_at h1 l)]\<rparr>) h1, k1))"

fun CurveLoop_before_sync :: "addr \<Rightarrow> state \<Rightarrow> state" where
  "CurveLoop_before_sync c (h, k) =
     (let cl = loop_at h c;
          (h4, k4) =
            (if \<not> before_sync_initiated cl
             then (let (h1, k1) = fold (CurveLoop_before_sync_line c) (loop_lines cl) (h, k);
                       (t, k2) = kernel_do (AddCurveLoop (line_tags (loop_at h1 c))) k1;
                       h2 = upd_loop c (\<lambda>ob. ob\<lparr>tag := Some t\<rparr>) h1
                   in fold (\<lambda>f. Field_before_sync f c) (loop_fields (loop_at h2 c)) (h2, k2))
             else (h, k))
      in (upd_loop c MeshTransaction_before_sync h4, k4))"

text \<open>
  \<^verbatim>\<open>PlaneSurface.before_sync\<close> (lines 226-234), inherited by
  \<^verbatim>\<open>TransfinitePlaneSurface\<close>; first the body of its loop, which carries the local
  list \<^verbatim>\<open>curve_loop_tags\<close>.
\<close>

fun PlaneSurface_before_sync_loop ::
  "addr \<Rightarrow> int option list \<times> state \<Rightarrow> int option list \<times> state" where
  "PlaneSurface_before_sync_loop c (curve_loop_tags, h, k) =
     (let (h1, k1) = CurveLoop_before_sync c (h, k)
      in (curve_loop_tags @ [tag (loop_at h1 c)], h1, k1))"

fun PlaneSurface_before_sync :: "addr \<Rightarrow> state \<Rightarrow> state" where
  "PlaneSurface_before_sync s (h, k) =
     (let ps = surface_at h s;
          (h3, k3) =
            (if \<not> before_sync_initiated ps
             then (let (curve_loop_tags, h1, k1) =
                         fold PlaneSurface_before_sync_loop (curve_loops ps) ([], h, k);
                       (t, k2) = kernel_do (AddPlaneSurface curve_loop_tags) k1
                   in (upd_surface s (\<lambda>ob. ob\<lparr>tag := Some t\<rparr>) h1, k2))
             else (h, k))
      in (upd_surface s MeshTransaction_before_sync h3, k3))"

subsection \<open>Phase 2: \<^verbatim>\<open>after_sync\<close>\<close>

text \<open>A Point inherits \<^verbatim>\<open>MeshTransaction.after_sync\<close> (lines 69-71).\<close>

fun Point_after_sync :: "addr \<Rightarrow> state \<Rightarrow> state" where
  "Point_after_sync a (h, k) = (upd_point a MeshTransaction_after_sync h, k)"

text \<open>
  A plain Line inherits \<^verbatim>\<open>MeshTransaction.after_sync\<close>; a TransfiniteLine runs
  \<^verbatim>\<open>TransfiniteLine.after_sync\<close> (lines 147-155).
\<close>

fun Line_after_sync :: "addr \<Rightarrow> state \<Rightarrow> state" where
  "Line_after_sync a (h, k) =
     (let ln = line_at h a;
          k1 = (case transfinite ln of
                  None \<Rightarrow> k
                | Some t \<Rightarrow>
                    if \<not> after_sync_initiated ln
                    then kernel_void
                           (SetTransfiniteCurve (tag ln) (cell_count t + 1) (mesh_type t) (coeff t)) k
                    else k)
      in (upd_line a MeshTransaction_after_sync h, k1))"

text \<open>
  \<^verbatim>\<open>if self.attr: setNumber(self.tag, key, self.attr)\<close> for an \<^verbatim>\<open>Optional[float]\<close>
  attribute, and the same for a \<^verbatim>\<open>bool\<close> attribute with the value that is passed.
\<close>

definition set_float_attr :: "real option \<Rightarrow> int \<Rightarrow> string \<Rightarrow> kernel \<Rightarrow> kernel" where
  "set_float_attr v t key k =
     (case v of
        None \<Rightarrow> k
      | Some r \<Rightarrow> if r \<noteq> 0 then kernel_void (FieldSetNumber t key (PyFloat r)) k else k)"

definition set_number_if :: "bool \<Rightarrow> int \<Rightarrow> string \<Rightarrow> pynum \<Rightarrow> kernel \<Rightarrow> kernel" where
  "set_number_if b t key v k = (if b then kernel_void (FieldSetNumber t key v) k else k)"

text \<open>
  \<^verbatim>\<open>Field.after_sync\<close> (lines 81-82) for a plain Field, \<^verbatim>\<open>BoundaryLayer.after_sync\<close>
  (lines 292-312) for a BoundaryLayer.
\<close>

fun Field_after_sync :: "addr \<Rightarrow> addr \<Rightarrow> state \<Rightarrow> state" where
  "Field_after_sync f curve_loop (h, k) =
     (let fo = field_at h f;
          (h2, k2) =
            (case boundary_layer fo of
               None \<Rightarrow> (h, k)
             | Some bl \<Rightarrow>
                 if \<not> after_sync_initiated fo
                 then (let (t, k0) = kernel_do (FieldAdd ''BoundaryLayer'') k;
                           h1 = upd_field f (\<lambda>ob. ob\<lparr>tag := Some t\<rparr>) h;
                           k1 = kernel_void
                                  (FieldSetNumbers t ''CurvesList'' (line_tags (loop_at h1 curve_loop))) k0;
                           k1 = set_float_attr (aniso_max bl) t ''AnisoMax'' k1;
                           k1 = set_number_if (intersect_metrics bl) t ''IntersectMetrics''
                                  (PyBool (intersect_metrics bl)) k1;
                           k1 = set_number_if (bl_is_quad_mesh bl) t ''Quads''
                                  (PyInt (if bl_is_quad_mesh bl then 1 else 0)) k1;
                           k1 = set_float_attr (hfar bl) t ''hfar'' k1;
                           k1 = set_float_attr (hwall_n bl) t ''hwall_n'' k1;
                           k1 = set_float_attr (ratio bl) t ''ratio'' k1;
                           k1 = set_float_attr (thickness bl) t ''thickness'' k1
                       in (h1, kernel_void (FieldSetAsBoundaryLayer t) k1))
                 else (h, k))
      in (upd_field f MeshTransaction_after_sync h2, k2))"

text \<open>
  \<^verbatim>\<open>CurveLoop.after_sync\<close> (lines 183-201). The dict \<^verbatim>\<open>line_group_tags\<close> keeps
  insertion order, which fixes the order of the physical groups: it is a list of
  (label, tags) pairs with distinct labels.
\<close>

definition dict_setdefault_empty :: "(string \<times> 'v list) list \<Rightarrow> string \<Rightarrow> (string \<times> 'v list) list" where
  "dict_setdefault_empty d key = (if key \<notin> set (map fst d) then d @ [(key, [])] else d)"

definition dict_append :: "(string \<times> 'v list) list \<Rightarrow> string \<Rightarrow> 'v \<Rightarrow> (string \<times> 'v list) list" where
  "dict_append d key v = map (\<lambda>(key', vs). if key' = key then (key', vs @ [v]) else (key', vs)) d"

type_synonym line_groups = "(string \<times> int option list) list"

fun CurveLoop_after_sync_line :: "addr \<Rightarrow> line_groups \<times> state \<Rightarrow> line_groups \<times> state" where
  "CurveLoop_after_sync_line l (line_group_tags, h, k) =
     (let ln = line_at h l;
          line_group_tags' =
            (case line_label ln of
               None \<Rightarrow> line_group_tags
             | Some label \<Rightarrow>
                 if label \<noteq> []
                 then dict_append (dict_setdefault_empty line_group_tags label) label (tag ln)
                 else line_group_tags);
          (h1, k1) = Line_after_sync l (h, k)
      in (line_group_tags', h1, k1))"

fun CurveLoop_after_sync_group :: "string \<times> int option list \<Rightarrow> kernel \<Rightarrow> kernel" where
  "CurveLoop_after_sync_group (label, group_tags) k =
     (let (physical_group_tag, k1) = kernel_do (AddPhysicalGroup (DimType_value CURVE) group_tags) k
      in kernel_void (SetPhysicalName (DimType_value CURVE) physical_group_tag label) k1)"

fun CurveLoop_after_sync :: "addr \<Rightarrow> state \<Rightarrow> state" where
  "CurveLoop_after_sync c (h, k) =
     (let cl = loop_at h c;
          (h3, k3) =
            (if \<not> after_sync_initiated cl
             then (let (line_group_tags, h1, k1) =
                         fold CurveLoop_after_sync_line (loop_lines cl) ([], h, k);
                       k2 = fold CurveLoop_after_sync_group line_group_tags k1
                   in fold (\<lambda>f. Field_after_sync f c) (loop_fields (loop_at h1 c)) (h1, k2))
             else (h, k))
      in (upd_loop c MeshTransaction_after_sync h3, k3))"

text \<open>
  \<^verbatim>\<open>PlaneSurface.after_sync\<close> (lines 236-246), with its two conditional blocks (lines
  240-242 and 244-245) named. For a TransfinitePlaneSurface,
  \<^verbatim>\<open>TransfinitePlaneSurface.after_sync\<close> (lines 256-263) runs its own guarded block and
  then calls \<^verbatim>\<open>super().after_sync()\<close>.
\<close>

definition PlaneSurface_label_group :: "PlaneSurface \<Rightarrow> kernel \<Rightarrow> kernel" where
  "PlaneSurface_label_group ps k =
     (case surface_label ps of
        None \<Rightarrow> k
      | Some label \<Rightarrow>
          (let (physical_group_tag, k') =
                 kernel_do (AddPhysicalGroup (DimType_value SURFACE) [tag ps]) k
           in kernel_void (SetPhysicalName (DimType_value SURFACE) physical_group_tag label) k'))"

definition PlaneSurface_recombine :: "PlaneSurface \<Rightarrow> kernel \<Rightarrow> kernel" where
  "PlaneSurface_recombine ps k =
     (if is_quad_mesh ps then kernel_void (SetRecombine 2 (tag ps)) k else k)"

fun PlaneSurface_after_sync_base :: "addr \<Rightarrow> state \<Rightarrow> state" where
  "PlaneSurface_after_sync_base s (h, k) =
     (let ps = surface_at h s;
          (h3, k3) =
            (if \<not> after_sync_initiated ps
             then (let (h1, k1) = fold CurveLoop_after_sync (curve_loops ps) (h, k);
                       k2 = PlaneSurface_label_group (surface_at h1 s) k1;
                       k3 = PlaneSurface_recombine (surface_at h1 s) k2
                   in (h1, k3))
             else (h, k))
      in (upd_surface s MeshTransaction_after_sync h3, k3))"

fun PlaneSurface_after_sync :: "addr \<Rightarrow> state \<Rightarrow> state" where
  "PlaneSurface_after_sync s (h, k) =
     (let ps = surface_at h s
      in case corners ps of
           None \<Rightarrow> PlaneSurface_after_sync_base s (h, k)
         | Some cs \<Rightarrow>
             (let k1 = (if \<not> after_sync_initiated ps
                        then kernel_void
                               (SetTransfiniteSurface (tag ps) (map (\<lambda>corner. tag (point_at h corner)) cs)) k
                        else k)
              in PlaneSurface_after_sync_base s (h, k1)))"

subsection \<open>The session: \<^verbatim>\<open>Geometry\<close>\<close>

text \<open>
  A root handed to \<^verbatim>\<open>generate\<close> is a reference to any MeshTransaction. The call
  \<^verbatim>\<open>transaction.before_sync()\<close> dispatches on the object's class; on a Field it raises
  TypeError, because \<^verbatim>\<open>Field.before_sync\<close> and \<^verbatim>\<open>Field.after_sync\<close> take the curve loop
  as a second argument.
\<close>

datatype ref = PointRef addr | LineRef addr | CurveLoopRef addr | PlaneSurfaceRef addr | FieldRef addr

fun before_sync :: "ref \<Rightarrow> state \<Rightarrow> error + state" where
  "before_sync (PointRef a) s = Inr (Point_before_sync a s)"
| "before_sync (LineRef a) s = Inr (Line_before_sync a s)"
| "before_sync (CurveLoopRef a) s = Inr (CurveLoop_before_sync a s)"
| "before_sync (PlaneSurfaceRef a) s = Inr (PlaneSurface_before_sync a s)"
| "before_sync (FieldRef a) s = Inl TypeError"

fun after_sync :: "ref \<Rightarrow> state \<Rightarrow> error + state" where
  "after_sync (PointRef a) s = Inr (Point_after_sync a s)"
| "after_sync (LineRef a) s = Inr (Line_after_sync a s)"
| "after_sync (CurveLoopRef a) s = Inr (CurveLoop_after_sync a s)"
| "after_sync (PlaneSurfaceRef a) s = Inr (PlaneSurface_after_sync a s)"
| "after_sync (FieldRef a) s = Inl TypeError"

text \<open>The two \<^verbatim>\<open>for transaction in transactions\<close> loops of \<^verbatim>\<open>generate\<close>.\<close>

fun before_sync_all :: "ref list \<Rightarrow> state \<Rightarrow> error + state" where
  "before_sync_all [] s = Inr s"
| "before_sync_all (r # rs) s = ebind (before_sync r s) (before_sync_all rs)"

fun after_sync_all :: "ref list \<Rightarrow> state \<Rightarrow> error + state" where
  "after_sync_all [] s = Inr s"
| "after_sync_all (r # rs) s = ebind (after_sync r s) (after_sync_all rs)"

text \<open>The argument of \<^verbatim>\<open>generate\<close>: one transaction or a list of them.\<close>

datatype transactions = Single ref | Listed "ref list"

fun roots_of :: "transactions \<Rightarrow> ref list" where
  "roots_of (Single r) = [r]"
| "roots_of (Listed rs) = rs"

fun run_before_sync :: "transactions \<Rightarrow> state \<Rightarrow> error + state" where
  "run_before_sync (Listed rs) s = before_sync_all rs s"
| "run_before_sync (Single r) s = before_sync r s"

fun run_after_sync :: "transactions \<Rightarrow> state \<Rightarrow> error + state" where
  "run_after_sync (Listed rs) s = after_sync_all rs s"
| "run_after_sync (Single r) s = after_sync r s"

text \<open>
  \<^verbatim>\<open>Geometry.generate\<close> (lines 323-337). The importer \<^verbatim>\<open>import_from_gmsh\<close> lives in
  another module; it reads the kernel and is a parameter here.
\<close>

fun Geometry_generate ::
  "(kernel \<Rightarrow> 'mesh) \<Rightarrow> transactions \<Rightarrow> state \<Rightarrow> error + ('mesh \<times> state)" where
  "Geometry_generate import_from_gmsh ts (h, k) =
     ebind (run_before_sync ts (h, k)) (\<lambda>(h1, k1).
       let k2 = kernel_void Synchronize k1
       in ebind (run_after_sync ts (h1, k2)) (\<lambda>(h3, k3).
            let k4 = kernel_void MeshGenerate k3;
                k5 = kernel_void (OptionSetNumber ''Mesh.SaveAll'' 1) k4
            in Inr (import_from_gmsh k5, h3, k5)))"

text \<open>
  \<^verbatim>\<open>Geometry.__enter__\<close>, \<^verbatim>\<open>Geometry.__exit__\<close> and \<^verbatim>\<open>Geometry.write\<close> (lines 316-321
  and 339-340). The class has no attribute: the only session state is the kernel's.
\<close>

definition Geometry_enter :: "kernel \<Rightarrow> error + kernel" where
  "Geometry_enter k = Inr (kernel_void Initialize k)"

definition Geometry_exit :: "kernel \<Rightarrow> error + kernel" where
  "Geometry_exit k = Inr (kernel_void Finalize k)"

definition Geometry_write :: "string \<Rightarrow> kernel \<Rightarrow> error + kernel" where
  "Geometry_write filename k = Inr (kernel_void (Write filename) k)"

subsection \<open>Constructors\<close>

text \<open>
  Each constructor allocates the next free address. \<^verbatim>\<open>Point.__post_init__\<close> (lines
  96-102) reads \<^verbatim>\<open>coord[0]\<close> and \<^verbatim>\<open>coord[1]\<close>, and \<^verbatim>\<open>coord[2]\<close> when there are exactly
  three components. A coordinate is modelled as the real number it denotes: the
  conversion \<^verbatim>\<open>np.asarray\<close> of line 98 keeps the value of every component that is already a
  float64, and its rounding of other numbers is not modelled. Only the coordinate
  arguments of the point-creation call depend on it.
\<close>

definition Point_new :: "real list \<Rightarrow> real \<Rightarrow> int option \<Rightarrow> heap \<Rightarrow> error + (addr \<times> heap)" where
  "Point_new c ms lab h =
     ebind (index c 0) (\<lambda>x0.
     ebind (index c 1) (\<lambda>y0.
       let z0 = (if length c = 3 then c ! 2 else 0);
           a = next_addr h
       in Inr (a, h\<lparr>point_at := (point_at h)(a :=
                 \<lparr>tag = None, before_sync_initiated = False, after_sync_initiated = False,
                  coord = c, mesh_size = ms, point_label = lab,
                  point_x = x0, point_y = y0, point_z = z0\<rparr>),
               next_addr := Suc a\<rparr>)))"

definition Line_new ::
  "addr \<Rightarrow> addr \<Rightarrow> string option \<Rightarrow> TransfiniteLine option \<Rightarrow> heap \<Rightarrow> addr \<times> heap" where
  "Line_new p q lab tf h =
     (let a = next_addr h
      in (a, h\<lparr>line_at := (line_at h)(a :=
                 \<lparr>tag = None, before_sync_initiated = False, after_sync_initiated = False,
                  line_start = p, line_end = q, line_label = lab, transfinite = tf\<rparr>),
               next_addr := Suc a\<rparr>))"

definition CurveLoop_new :: "addr list \<Rightarrow> addr list \<Rightarrow> heap \<Rightarrow> addr \<times> heap" where
  "CurveLoop_new ls fs h =
     (let a = next_addr h
      in (a, h\<lparr>loop_at := (loop_at h)(a :=
                 \<lparr>tag = None, before_sync_initiated = False, after_sync_initiated = False,
                  loop_lines = ls, loop_fields = fs, line_tags = [],
                  loop_points = map (\<lambda>l. line_start (line_at h l)) ls\<rparr>),
               next_addr := Suc a\<rparr>))"

definition PlaneSurface_new ::
  "addr list \<Rightarrow> addr list \<Rightarrow> string option \<Rightarrow> bool \<Rightarrow> addr list option \<Rightarrow> heap \<Rightarrow> addr \<times> heap" where
  "PlaneSurface_new outl hol lab quad crn h =
     (let a = next_addr h
      in (a, h\<lparr>surface_at := (surface_at h)(a :=
                 \<lparr>tag = None, before_sync_initiated = False, after_sync_initiated = False,
                  outlines = outl, holes = hol, surface_label = lab, is_quad_mesh = quad,
                  transfinite_corners = None, curve_loops = outl @ hol, corners = crn\<rparr>),
               next_addr := Suc a\<rparr>))"

definition Field_new :: "BoundaryLayer option \<Rightarrow> heap \<Rightarrow> addr \<times> heap" where
  "Field_new bl h =
     (let a = next_addr h
      in (a, h\<lparr>field_at := (field_at h)(a :=
                 \<lparr>tag = None, before_sync_initiated = False, after_sync_initiated = False,
                  boundary_layer = bl\<rparr>),
               next_addr := Suc a\<rparr>))"

subsection \<open>\<^verbatim>\<open>get_points_and_lines\<close>\<close>

text \<open>An argument of type \<^verbatim>\<open>Union[X, List[X]]\<close>.\<close>

datatype 'a one_or_list = One 'a | Many "'a list"

text \<open>
  The conditional expressions of lines 45-49 on an optional argument \<open>v\<close>:
  \<^verbatim>\<open>(v[line_index] if isinstance(v, List) else v) if v else default\<close>. The argument
  \<open>nz\<close> is the truthiness of a single value; a list is truthy when it is not empty.
  The result is \<open>None\<close> where the Python takes the default.
\<close>

fun opt_pick :: "('a \<Rightarrow> bool) \<Rightarrow> 'a one_or_list option \<Rightarrow> nat \<Rightarrow> error + 'a option" where
  "opt_pick nz None i = Inr None"
| "opt_pick nz (Some (One v)) i = (if nz v then Inr (Some v) else Inr None)"
| "opt_pick nz (Some (Many l)) i =
     (if l \<noteq> [] then ebind (index l i) (\<lambda>v. Inr (Some v)) else Inr None)"

text \<open>\<^verbatim>\<open>mesh_size[i] if isinstance(mesh_size, List) else mesh_size\<close> (line 33).\<close>

fun pick :: "'a one_or_list \<Rightarrow> nat \<Rightarrow> error + 'a" where
  "pick (One v) i = Inr v"
| "pick (Many l) i = index l i"

record gpl_state =
  gpl_mesh_size :: "real one_or_list"
  gpl_points :: "addr list"
  gpl_lines :: "addr list"
  gpl_line_index :: nat
  gpl_heap :: heap

text \<open>One iteration of the loop (lines 31-54) for the loop variable \<open>i\<close>.\<close>

definition gpl_step ::
  "real list list \<Rightarrow> string one_or_list option \<Rightarrow> int one_or_list option \<Rightarrow>
   string one_or_list option \<Rightarrow> real one_or_list option \<Rightarrow> nat \<Rightarrow> gpl_state \<Rightarrow> error + gpl_state" where
  "gpl_step coords labels cell_counts mesh_types mesh_coeffs i st =
     ebind (pick (gpl_mesh_size st) i) (\<lambda>ms.
     ebind (if i = length coords
            then ebind (index (gpl_points st) 0) (\<lambda>p. Inr (p, gpl_points st, gpl_heap st))
            else ebind (index coords i) (\<lambda>c.
                 ebind (Point_new c ms None (gpl_heap st)) (\<lambda>(p, h1).
                   Inr (p, gpl_points st @ [p], h1))))
       (\<lambda>(point, points, h1).
          if i > 0
          then ebind (opt_pick (\<lambda>s. s \<noteq> []) labels (gpl_line_index st)) (\<lambda>label.
               ebind (ebind (opt_pick (\<lambda>n. n \<noteq> 0) cell_counts (gpl_line_index st)) (\<lambda>cco.
                        case cco of
                          None \<Rightarrow> Inr None
                        | Some cc \<Rightarrow>
                            ebind (opt_pick (\<lambda>s. s \<noteq> []) mesh_types (gpl_line_index st)) (\<lambda>mto.
                            ebind (opt_pick (\<lambda>r. r \<noteq> 0) mesh_coeffs (gpl_line_index st)) (\<lambda>mco.
                              Inr (Some \<lparr>cell_count = cc,
                                         mesh_type = (case mto of None \<Rightarrow> ''Progression'' | Some mt \<Rightarrow> mt),
                                         coeff = (case mco of None \<Rightarrow> 1 | Some mc \<Rightarrow> mc)\<rparr>))))) (\<lambda>tf.
               ebind (index points (i - 1)) (\<lambda>start.
                 let (line, h2) = Line_new start point label tf h1
                 in Inr \<lparr>gpl_mesh_size = One ms, gpl_points = points,
                         gpl_lines = gpl_lines st @ [line],
                         gpl_line_index = gpl_line_index st + 1, gpl_heap = h2\<rparr>)))
          else Inr \<lparr>gpl_mesh_size = One ms, gpl_points = points, gpl_lines = gpl_lines st,
                    gpl_line_index = gpl_line_index st, gpl_heap = h1\<rparr>))"

fun gpl_loop ::
  "real list list \<Rightarrow> string one_or_list option \<Rightarrow> int one_or_list option \<Rightarrow>
   string one_or_list option \<Rightarrow> real one_or_list option \<Rightarrow> nat list \<Rightarrow> gpl_state \<Rightarrow> error + gpl_state" where
  "gpl_loop coords labels cell_counts mesh_types mesh_coeffs [] st = Inr st"
| "gpl_loop coords labels cell_counts mesh_types mesh_coeffs (i # is) st =
     ebind (gpl_step coords labels cell_counts mesh_types mesh_coeffs i st)
           (gpl_loop coords labels cell_counts mesh_types mesh_coeffs is)"

definition get_points_and_lines ::
  "real list list \<Rightarrow> real one_or_list \<Rightarrow> string one_or_list option \<Rightarrow> int one_or_list option \<Rightarrow>
   string one_or_list option \<Rightarrow> real one_or_list option \<Rightarrow> heap \<Rightarrow> error + (addr list \<times> addr list \<times> heap)" where
  "get_points_and_lines coords mesh_size0 labels cell_counts mesh_types mesh_coeffs h =
     ebind (gpl_loop coords labels cell_counts mesh_types mesh_coeffs [0 ..< length coords + 1]
              \<lparr>gpl_mesh_size = mesh_size0, gpl_points = [], gpl_lines = [],
               gpl_line_index = 0, gpl_heap = h\<rparr>)
       (\<lambda>st. Inr (gpl_points st, gpl_lines st, gpl_heap st))"

subsection \<open>Kernel traces\<close>

text \<open>
  \<open>extends P k k'\<close>: the kernel \<open>k'\<close> is \<open>k\<close> after some further calls, all of which
  satisfy \<open>P\<close>.
\<close>

definition extends :: "(kernel_call \<Rightarrow> bool) \<Rightarrow> kernel \<Rightarrow> kernel \<Rightarrow> bool" where
  "extends P k k' = (reply k' = reply k \<and> (\<exists>d. calls k' = calls k @ d \<and> list_all P d))"

subsection \<open>Concrete inputs\<close>

text \<open>A kernel that answers the n-th call with n, and a store of freshly built objects.\<close>

definition counting_kernel :: kernel where
  "counting_kernel = \<lparr>calls = [], reply = (\<lambda>history c. int (length history) + 1)\<rparr>"

definition blank_heap :: heap where
  "blank_heap =
     \<lparr>point_at = (\<lambda>a. \<lparr>tag = None, before_sync_initiated = False, after_sync_initiated = False,
                        coord = [0, 0], mesh_size = 0, point_label = None,
                        point_x = 0, point_y = 0, point_z = 0\<rparr>),
      line_at = (\<lambda>a. \<lparr>tag = None, before_sync_initiated = False, after_sync_initiated = False,
                       line_start = 0, line_end = 0, line_label = None, transfinite = None\<rparr>),
      loop_at = (\<lambda>a. \<lparr>tag = None, before_sync_initiated = False, after_sync_initiated = False,
                       loop_lines = [], loop_fields = [], line_tags = [], loop_points = []\<rparr>),
      surface_at = (\<lambda>a. \<lparr>tag = None, before_sync_initiated = False, after_sync_initiated = False,
                          outlines = [], holes = [], surface_label = None, is_quad_mesh = False,
                          transfinite_corners = None, curve_loops = [], corners = None\<rparr>),
      field_at = (\<lambda>a. \<lparr>tag = None, before_sync_initiated = False, after_sync_initiated = False,
                        boundary_layer = None\<rparr>),
      next_addr = 0\<rparr>"

text \<open>A TransfiniteLine with \<^verbatim>\<open>cell_count=4\<close> between the points at 1 and 2; it is at address 0.\<close>

definition tl_heap :: heap where
  "tl_heap = snd (Line_new 1 2 None
                    (Some \<lparr>cell_count = 4, mesh_type = ''Progression'', coeff = 1\<rparr>) blank_heap)"

subsection \<open>Classes of kernel calls\<close>

fun is_curve_constraint :: "kernel_call \<Rightarrow> bool" where
  "is_curve_constraint (SetTransfiniteCurve t n ty c) = True"
| "is_curve_constraint _ = False"

fun is_physical_group :: "kernel_call \<Rightarrow> bool" where
  "is_physical_group (AddPhysicalGroup d ts) = True"
| "is_physical_group (SetPhysicalName d g n) = True"
| "is_physical_group _ = False"

fun is_field_call :: "kernel_call \<Rightarrow> bool" where
  "is_field_call (FieldAdd n) = True"
| "is_field_call (FieldSetNumbers t key vs) = True"
| "is_field_call (FieldSetNumber t key v) = True"
| "is_field_call (FieldSetAsBoundaryLayer t) = True"
| "is_field_call _ = False"

fun is_recombine :: "kernel_call \<Rightarrow> bool" where
  "is_recombine (SetRecombine d t) = True"
| "is_recombine _ = False"

fun is_surface_constraint :: "kernel_call \<Rightarrow> bool" where
  "is_surface_constraint (SetTransfiniteSurface t cs) = True"
| "is_surface_constraint _ = False"

definition is_loop_refinement :: "kernel_call \<Rightarrow> bool" where
  "is_loop_refinement c = (is_curve_constraint c \<or> is_physical_group c \<or> is_field_call c)"

definition is_base_refinement :: "kernel_call \<Rightarrow> bool" where
  "is_base_refinement c = (is_loop_refinement c \<or> is_recombine c)"

definition is_phase2 :: "kernel_call \<Rightarrow> bool" where
  "is_phase2 c = (is_base_refinement c \<or> is_surface_constraint c)"

definition new_calls :: "kernel \<Rightarrow> kernel \<Rightarrow> kernel_call list" where
  "new_calls k k' = drop (length (calls k)) (calls k')"

fun set_numbers :: "kernel_call list \<Rightarrow> (string \<times> pynum) list" where
  "set_numbers [] = []"
| "set_numbers (FieldSetNumber t key v # cs) = (key, v) # set_numbers cs"
| "set_numbers (c # cs) = set_numbers cs"

definition sets_number :: "kernel_call list \<Rightarrow> string \<Rightarrow> bool" where
  "sets_number d key = (key \<in> set (map fst (set_numbers d)))"

definition opt_call :: "bool \<Rightarrow> kernel_call \<Rightarrow> kernel_call list" where
  "opt_call b c = (if b then [c] else [])"

definition float_call :: "real option \<Rightarrow> int \<Rightarrow> string \<Rightarrow> kernel_call list" where
  "float_call v t key =
     (case v of None \<Rightarrow> [] | Some r \<Rightarrow> if r \<noteq> 0 then [FieldSetNumber t key (PyFloat r)] else [])"

definition BoundaryLayer_calls :: "int \<Rightarrow> int option list \<Rightarrow> BoundaryLayer \<Rightarrow> kernel_call list" where
  "BoundaryLayer_calls t curves bl =
     [FieldAdd ''BoundaryLayer'', FieldSetNumbers t ''CurvesList'' curves]
     @ float_call (aniso_max bl) t ''AnisoMax''
     @ opt_call (intersect_metrics bl) (FieldSetNumber t ''IntersectMetrics'' (PyBool True))
     @ opt_call (bl_is_quad_mesh bl) (FieldSetNumber t ''Quads'' (PyInt 1))
     @ float_call (hfar bl) t ''hfar''
     @ float_call (hwall_n bl) t ''hwall_n''
     @ float_call (ratio bl) t ''ratio''
     @ float_call (thickness bl) t ''thickness''
     @ [FieldSetAsBoundaryLayer t]"

definition tri_heap :: heap where
  "tri_heap =
     (let (l0, h0) = Line_new 1 2 (Some ''wall'') None blank_heap;
          (l1, h1) = Line_new 2 3 None None h0;
          (l2, h2) = Line_new 3 1 (Some ''wall'') None h1;
          (c, h3) = CurveLoop_new [l0, l1, l2] [] h2;
          (s, h4) = PlaneSurface_new [c] [] (Some ''domain'') True (Some [1, 2, 3]) h3
      in h4)"

definition bl_heap :: heap where
  "bl_heap = snd (Field_new (Some \<lparr>aniso_max = Some 2, hfar = Some 0, hwall_n = None, ratio = None,
       thickness = None, intersect_metrics = False, bl_is_quad_mesh = True\<rparr>) blank_heap)"

text \<open>
  The calls of lines 240-245 for a surface \<open>ps\<close>, when the kernel has the history \<open>hist\<close> and
  answers with \<open>rp\<close>.
\<close>

definition PlaneSurface_own_calls ::
  "(kernel_call list \<Rightarrow> kernel_call \<Rightarrow> int) \<Rightarrow> kernel_call list \<Rightarrow> PlaneSurface \<Rightarrow> kernel_call list" where
  "PlaneSurface_own_calls rp hist ps =
     (case surface_label ps of
        None \<Rightarrow> []
      | Some label \<Rightarrow>
          [AddPhysicalGroup 2 [tag ps],
           SetPhysicalName 2 (rp hist (AddPhysicalGroup 2 [tag ps])) label])
     @ (if is_quad_mesh ps then [SetRecombine 2 (tag ps)] else [])"

subsection \<open>Label groups of a curve loop\<close>

text \<open>
  What one iteration of the loop over the lines (lines 188-191) does to the dict, given
  the line's label and tag.
\<close>

definition add_to_groups :: "string option \<times> int option \<Rightarrow> line_groups \<Rightarrow> line_groups" where
  "add_to_groups p g =
     (case fst p of
        None \<Rightarrow> g
      | Some label \<Rightarrow>
          if label \<noteq> [] then dict_append (dict_setdefault_empty g label) label (snd p) else g)"

text \<open>The calls of the loop over the dict (lines 194-196), from the history \<open>hist\<close>.\<close>

fun group_calls ::
  "(kernel_call list \<Rightarrow> kernel_call \<Rightarrow> int) \<Rightarrow> kernel_call list \<Rightarrow> line_groups \<Rightarrow> kernel_call list" where
  "group_calls rp hist [] = []"
| "group_calls rp hist ((label, group_tags) # g) =
     AddPhysicalGroup 1 group_tags
     # SetPhysicalName 1 (rp hist (AddPhysicalGroup 1 group_tags)) label
     # group_calls rp
         (hist @ [AddPhysicalGroup 1 group_tags,
                  SetPhysicalName 1 (rp hist (AddPhysicalGroup 1 group_tags)) label]) g"

text \<open>The tags of the lines of loop \<open>c\<close> that carry the label \<open>l\<close>, in the loop's order.\<close>

definition tags_with_label :: "heap \<Rightarrow> addr \<Rightarrow> string \<Rightarrow> int option list" where
  "tags_with_label h c l =
     map (\<lambda>x. tag (line_at h x))
       (filter (\<lambda>x. line_label (line_at h x) = Some l) (loop_lines (loop_at h c)))"

text \<open>The dict that the loop over the lines of loop \<open>c\<close> builds, from the store \<open>h\<close>.\<close>

definition loop_groups :: "heap \<Rightarrow> addr \<Rightarrow> line_groups" where
  "loop_groups h c =
     fold add_to_groups
       (map (\<lambda>l. (line_label (line_at h l), tag (line_at h l))) (loop_lines (loop_at h c))) []"

text \<open>
  A curve loop at address 4 whose four lines carry the labels A, None, B, A (lines 0 to 3).
\<close>

definition abn_heap :: heap where
  "abn_heap =
     (let (l0, h0) = Line_new 1 2 (Some ''A'') None blank_heap;
          (l1, h1) = Line_new 2 3 None None h0;
          (l2, h2) = Line_new 3 4 (Some ''B'') None h1;
          (l3, h3) = Line_new 4 1 (Some ''A'') None h2;
          (c, h4) = CurveLoop_new [l0, l1, l2, l3] [] h3
      in h4)"

text \<open>The tags stored under a label, or none.\<close>

definition vals :: "line_groups \<Rightarrow> string \<Rightarrow> int option list" where
  "vals g l = (case map_of g l of None \<Rightarrow> [] | Some vs \<Rightarrow> vs)"


subsection \<open>The loop of \<^verbatim>\<open>get_points_and_lines\<close>\<close>

text \<open>
  The state after \<open>j \<ge> 1\<close> iterations over \<open>n\<close> coordinate rows, where \<open>m0\<close> is the mesh
  size that the first iteration left in the variable \<^verbatim>\<open>mesh_size\<close>.
\<close>

definition gpl_inv :: "nat \<Rightarrow> real \<Rightarrow> nat \<Rightarrow> gpl_state \<Rightarrow> bool" where
  "gpl_inv n m0 j st \<longleftrightarrow>
     gpl_mesh_size st = One m0
     \<and> length (gpl_points st) = min j n
     \<and> length (gpl_lines st) = j - 1
     \<and> gpl_line_index st = j - 1
     \<and> distinct (gpl_points st) \<and> distinct (gpl_lines st)
     \<and> (\<forall>a \<in> set (gpl_points st) \<union> set (gpl_lines st). a < next_addr (gpl_heap st))
     \<and> (\<forall>p \<in> set (gpl_points st). mesh_size (point_at (gpl_heap st) p) = m0)
     \<and> (\<forall>i < j - 1.
           line_start (line_at (gpl_heap st) (gpl_lines st ! i)) = gpl_points st ! i
         \<and> line_end (line_at (gpl_heap st) (gpl_lines st ! i)) = gpl_points st ! (Suc i mod n))"

text \<open>What line 33 leaves in \<^verbatim>\<open>mesh_size\<close> in the first iteration.\<close>

fun first_mesh_size :: "real one_or_list \<Rightarrow> real" where
  "first_mesh_size (One v) = v"
| "first_mesh_size (Many l) = l ! 0"

text \<open>
  Arguments with which no subscript of the function is out of range: a list of mesh
  sizes is not empty, and a per-line list that is not empty has an entry for each of the
  \<open>n\<close> lines.
\<close>

fun has_first :: "'a one_or_list \<Rightarrow> bool" where
  "has_first (One v) = True"
| "has_first (Many l) = (l \<noteq> [])"

fun long_enough :: "nat \<Rightarrow> 'a one_or_list option \<Rightarrow> bool" where
  "long_enough n None = True"
| "long_enough n (Some (One v)) = True"
| "long_enough n (Some (Many l)) = (l = [] \<or> n \<le> length l)"

subsection \<open>Construction calls\<close>

fun is_add_point :: "kernel_call \<Rightarrow> bool" where
  "is_add_point (AddPoint px py pz ms) = True"
| "is_add_point _ = False"

fun is_add_line :: "kernel_call \<Rightarrow> bool" where
  "is_add_line (AddLine p q) = True"
| "is_add_line _ = False"

fun is_add_curve_loop :: "kernel_call \<Rightarrow> bool" where
  "is_add_curve_loop (AddCurveLoop ts) = True"
| "is_add_curve_loop _ = False"

fun is_add_plane_surface :: "kernel_call \<Rightarrow> bool" where
  "is_add_plane_surface (AddPlaneSurface ts) = True"
| "is_add_plane_surface _ = False"

definition is_point_or_line :: "kernel_call \<Rightarrow> bool" where
  "is_point_or_line c = (is_add_point c \<or> is_add_line c)"

definition is_loop_construction :: "kernel_call \<Rightarrow> bool" where
  "is_loop_construction c = (is_add_point c \<or> is_add_line c \<or> is_add_curve_loop c)"

definition is_phase1 :: "kernel_call \<Rightarrow> bool" where
  "is_phase1 c = (is_add_point c \<or> is_add_line c \<or> is_add_curve_loop c \<or> is_add_plane_surface c)"

text \<open>The kernel creation call of the entity behind a reference, its flag and its tag.\<close>

fun creation_of :: "ref \<Rightarrow> kernel_call \<Rightarrow> bool" where
  "creation_of (PointRef a) c = is_add_point c"
| "creation_of (LineRef a) c = is_add_line c"
| "creation_of (CurveLoopRef a) c = is_add_curve_loop c"
| "creation_of (PlaneSurfaceRef a) c = is_add_plane_surface c"
| "creation_of (FieldRef a) c = False"

fun is_entity :: "ref \<Rightarrow> bool" where
  "is_entity (FieldRef a) = False"
| "is_entity _ = True"

fun constructed :: "heap \<Rightarrow> ref \<Rightarrow> bool" where
  "constructed h (PointRef a) = before_sync_initiated (point_at h a)"
| "constructed h (LineRef a) = before_sync_initiated (line_at h a)"
| "constructed h (CurveLoopRef a) = before_sync_initiated (loop_at h a)"
| "constructed h (PlaneSurfaceRef a) = before_sync_initiated (surface_at h a)"
| "constructed h (FieldRef a) = before_sync_initiated (field_at h a)"

fun refined :: "heap \<Rightarrow> ref \<Rightarrow> bool" where
  "refined h (PointRef a) = after_sync_initiated (point_at h a)"
| "refined h (LineRef a) = after_sync_initiated (line_at h a)"
| "refined h (CurveLoopRef a) = after_sync_initiated (loop_at h a)"
| "refined h (PlaneSurfaceRef a) = after_sync_initiated (surface_at h a)"
| "refined h (FieldRef a) = after_sync_initiated (field_at h a)"

fun tag_of :: "heap \<Rightarrow> ref \<Rightarrow> int option" where
  "tag_of h (PointRef a) = tag (point_at h a)"
| "tag_of h (LineRef a) = tag (line_at h a)"
| "tag_of h (CurveLoopRef a) = tag (loop_at h a)"
| "tag_of h (PlaneSurfaceRef a) = tag (surface_at h a)"
| "tag_of h (FieldRef a) = tag (field_at h a)"

subsection \<open>Flags only ever get set\<close>

definition flags_mono :: "heap \<Rightarrow> heap \<Rightarrow> bool" where
  "flags_mono h h' \<longleftrightarrow>
     (\<forall>r. (constructed h r \<longrightarrow> constructed h' r) \<and> (refined h r \<longrightarrow> refined h' r))"

definition keeps_flags :: "('a MeshTransaction_scheme \<Rightarrow> 'a MeshTransaction_scheme) \<Rightarrow> bool" where
  "keeps_flags f \<longleftrightarrow>
     (\<forall>ob. (before_sync_initiated ob \<longrightarrow> before_sync_initiated (f ob))
         \<and> (after_sync_initiated ob \<longrightarrow> after_sync_initiated (f ob)))"

subsection \<open>The points of an entity graph\<close>

text \<open>
  The Point instances that an entity depends on, by address: the two ends of a line, the
  points of the lines of a loop, the points of the loops of a surface.
\<close>

definition pts_line :: "heap \<Rightarrow> addr \<Rightarrow> addr set" where
  "pts_line h l = {line_start (line_at h l), line_end (line_at h l)}"

definition pts_loop :: "heap \<Rightarrow> addr \<Rightarrow> addr set" where
  "pts_loop h c = (\<Union>l \<in> set (loop_lines (loop_at h c)). pts_line h l)"

definition pts_surf :: "heap \<Rightarrow> addr \<Rightarrow> addr set" where
  "pts_surf h s = (\<Union>c \<in> set (curve_loops (surface_at h s)). pts_loop h c)"

fun points_of :: "heap \<Rightarrow> ref \<Rightarrow> addr set" where
  "points_of h (PointRef a) = {a}"
| "points_of h (LineRef a) = pts_line h a"
| "points_of h (CurveLoopRef a) = pts_loop h a"
| "points_of h (PlaneSurfaceRef a) = pts_surf h a"
| "points_of h (FieldRef a) = {}"

text \<open>
  The Point instances of the graph under a root: the points it depends on and, for a
  TransfinitePlaneSurface, its corners. By the data model a corner is one of the points
  of the surface's loops (\<open>corners_on_loops\<close>).
\<close>

fun corner_points :: "heap \<Rightarrow> ref \<Rightarrow> addr set" where
  "corner_points h (PlaneSurfaceRef a) =
     (case corners (surface_at h a) of None \<Rightarrow> {} | Some cs \<Rightarrow> set cs)"
| "corner_points h r = {}"

definition graph_points :: "heap \<Rightarrow> ref list \<Rightarrow> addr set" where
  "graph_points h rs = (\<Union>r \<in> set rs. points_of h r \<union> corner_points h r)"

definition corners_on_loops :: "heap \<Rightarrow> ref list \<Rightarrow> bool" where
  "corners_on_loops h rs \<longleftrightarrow> (\<forall>r \<in> set rs. corner_points h r \<subseteq> points_of h r)"

text \<open>A graph that was built in memory and never handed to the kernel.\<close>

definition unconstructed :: "heap \<Rightarrow> bool" where
  "unconstructed h \<longleftrightarrow> (\<forall>r. is_entity r \<longrightarrow> \<not> constructed h r)"

text \<open>The constructed points, and the number of point-creation calls so far.\<close>

definition pinit :: "heap \<Rightarrow> addr set" where
  "pinit h = {a. before_sync_initiated (point_at h a)}"

definition npoints :: "kernel \<Rightarrow> nat" where
  "npoints k = length (filter is_add_point (calls k))"

text \<open>Construction never rewires the graph.\<close>

definition same_shape :: "heap \<Rightarrow> heap \<Rightarrow> bool" where
  "same_shape h h' \<longleftrightarrow>
     (\<forall>l. line_start (line_at h' l) = line_start (line_at h l)
        \<and> line_end (line_at h' l) = line_end (line_at h l))
   \<and> (\<forall>c. loop_lines (loop_at h' c) = loop_lines (loop_at h c))
   \<and> (\<forall>s. curve_loops (surface_at h' s) = curve_loops (surface_at h s))"

text \<open>Every constructed line, loop and surface has all its points constructed.\<close>

definition points_closed :: "heap \<Rightarrow> bool" where
  "points_closed h \<longleftrightarrow>
     (\<forall>l. before_sync_initiated (line_at h l) \<longrightarrow> pts_line h l \<subseteq> pinit h)
   \<and> (\<forall>c. before_sync_initiated (loop_at h c) \<longrightarrow> pts_loop h c \<subseteq> pinit h)
   \<and> (\<forall>s. before_sync_initiated (surface_at h s) \<longrightarrow> pts_surf h s \<subseteq> pinit h)"

text \<open>
  \<open>built P s s'\<close>: from \<open>s\<close> to \<open>s'\<close> the graph keeps its shape, exactly the points of \<open>P\<close>
  become constructed in addition, each new one by one point-creation call, and every
  line, loop or surface that becomes constructed has its points constructed.
\<close>

definition built :: "addr set \<Rightarrow> state \<Rightarrow> state \<Rightarrow> bool" where
  "built P s s' \<longleftrightarrow>
     same_shape (fst s) (fst s')
   \<and> pinit (fst s') = pinit (fst s) \<union> P
   \<and> npoints (snd s') = npoints (snd s) + card (P - pinit (fst s))
   \<and> (\<forall>l. before_sync_initiated (line_at (fst s') l) \<longrightarrow>
          before_sync_initiated (line_at (fst s) l) \<or> pts_line (fst s) l \<subseteq> pinit (fst s'))
   \<and> (\<forall>c. before_sync_initiated (loop_at (fst s') c) \<longrightarrow>
          before_sync_initiated (loop_at (fst s) c) \<or> pts_loop (fst s) c \<subseteq> pinit (fst s'))
   \<and> (\<forall>a. before_sync_initiated (surface_at (fst s') a) \<longrightarrow>
          before_sync_initiated (surface_at (fst s) a) \<or> pts_surf (fst s) a \<subseteq> pinit (fst s'))"

text \<open>
  A closed triangle whose first and third corner are two Point instances with the same
  coordinates; every point is referenced by two lines. The points are at the addresses
  0, 1, 2, the lines at 3, 4, 5, the loop at 6.
\<close>

definition twin_heap :: heap where
  "twin_heap =
     (case Point_new [0, 0] 1 None blank_heap of Inl e \<Rightarrow> blank_heap | Inr (p0, h0) \<Rightarrow>
      case Point_new [1, 0] 1 None h0 of Inl e \<Rightarrow> blank_heap | Inr (p1, h1) \<Rightarrow>
      case Point_new [0, 0] 1 None h1 of Inl e \<Rightarrow> blank_heap | Inr (p2, h2) \<Rightarrow>
      let (l0, h3) = Line_new p0 p1 None None h2;
          (l1, h4) = Line_new p1 p2 None None h3;
          (l2, h5) = Line_new p2 p0 None None h4;
          (c, h6) = CurveLoop_new [l0, l1, l2] [] h5
      in h6)"

section \<open>Verification\<close>

text \<open>The defining equations of the operations are unfolded only where a proof asks for them.\<close>

declare Point_before_sync.simps [simp del]
declare Line_before_sync.simps [simp del]
declare Field_before_sync.simps [simp del]
declare CurveLoop_before_sync_line.simps [simp del]
declare CurveLoop_before_sync.simps [simp del]
declare PlaneSurface_before_sync_loop.simps [simp del]
declare PlaneSurface_before_sync.simps [simp del]
declare Point_after_sync.simps [simp del]
declare Line_after_sync.simps [simp del]
declare Field_after_sync.simps [simp del]
declare CurveLoop_after_sync_line.simps [simp del]
declare CurveLoop_after_sync_group.simps [simp del]
declare CurveLoop_after_sync.simps [simp del]
declare PlaneSurface_after_sync_base.simps [simp del]
declare PlaneSurface_after_sync.simps [simp del]
declare Geometry_generate.simps [simp del]

lemmas before_sync_simps = Point_before_sync.simps Line_before_sync.simps Field_before_sync.simps
  CurveLoop_before_sync_line.simps CurveLoop_before_sync.simps PlaneSurface_before_sync_loop.simps
  PlaneSurface_before_sync.simps

lemmas after_sync_simps = Point_after_sync.simps Line_after_sync.simps Field_after_sync.simps
  CurveLoop_after_sync_line.simps CurveLoop_after_sync_group.simps CurveLoop_after_sync.simps
  PlaneSurface_after_sync_base.simps PlaneSurface_after_sync.simps

lemmas store_defs = upd_point_def upd_line_def upd_loop_def upd_surface_def upd_field_def
  MeshTransaction_before_sync_def MeshTransaction_after_sync_def

lemmas kernel_defs = kernel_do_def kernel_void_def

lemmas demo_defs = blank_heap_def counting_kernel_def Line_new_def CurveLoop_new_def
  PlaneSurface_new_def Field_new_def Let_def store_defs kernel_defs

lemmas run_defs = demo_defs before_sync_simps after_sync_simps PlaneSurface_label_group_def
  PlaneSurface_recombine_def dict_setdefault_empty_def dict_append_def set_number_if_def set_float_attr_def

subsection \<open>Kernel traces\<close>

lemma extends_refl: "extends P k k"
  by (simp add: extends_def)

lemma extends_trans: "extends P k k1 \<Longrightarrow> extends P k1 k2 \<Longrightarrow> extends P k k2"
  by (auto simp: extends_def)

lemma extends_mono: "extends P k k' \<Longrightarrow> (\<And>c. P c \<Longrightarrow> Q c) \<Longrightarrow> extends Q k k'"
  by (auto simp: extends_def list_all_iff)

lemma extends_kernel_do: "P c \<Longrightarrow> extends P k (snd (kernel_do c k))"
  by (simp add: extends_def kernel_do_def)

lemma extends_kernel_void: "P c \<Longrightarrow> extends P k (kernel_void c k)"
  by (simp add: kernel_void_def extends_kernel_do)

lemma calls_kernel_void: "calls (kernel_void c k) = calls k @ [c]"
  by (simp add: kernel_void_def kernel_do_def)

lemma reply_kernel_void: "reply (kernel_void c k) = reply k"
  by (simp add: kernel_void_def kernel_do_def)

subsection \<open>TransfiniteLine refinement\<close>

text \<open>
  Claim C8. For a TransfiniteLine that has not been refined yet, \<^verbatim>\<open>after_sync\<close> sends the
  kernel exactly one call, the transfinite-curve constraint with the line's tag,
  \<open>cell_count + 1\<close> nodes, the line's mesh type and its coefficient; a second
  \<^verbatim>\<open>after_sync\<close> changes nothing, so the call is issued once. This holds for every
  \<open>cell_count\<close>, in particular for \<open>cell_count \<ge> 1\<close>; for \<open>cell_count = 4\<close> the node
  count is 5.
\<close>

theorem transfinite_line_after_sync:
  assumes "transfinite (line_at h a) = Some t"
    and "\<not> after_sync_initiated (line_at h a)"
  shows "calls (snd (Line_after_sync a (h, k))) =
           calls k @ [SetTransfiniteCurve (tag (line_at h a)) (cell_count t + 1) (mesh_type t) (coeff t)]
         \<and> Line_after_sync a (Line_after_sync a (h, k)) = Line_after_sync a (h, k)"
  using assms
  by (simp add: Line_after_sync.simps Let_def store_defs calls_kernel_void)

theorem transfinite_line_after_sync_witness:
  "calls (snd (Line_after_sync 0 (Line_before_sync 0 (tl_heap, counting_kernel)))) =
      [AddPoint 0 0 0 0, AddPoint 0 0 0 0, AddLine (Some 1) (Some 2),
       SetTransfiniteCurve (Some 3) 5 ''Progression'' 1]"
  using transfinite_line_after_sync [of "fst (Line_before_sync 0 (tl_heap, counting_kernel))" 0
      "\<lparr>cell_count = 4, mesh_type = ''Progression'', coeff = 1\<rparr>"
      "snd (Line_before_sync 0 (tl_heap, counting_kernel))"]
  by (simp add: tl_heap_def demo_defs before_sync_simps after_sync_simps)

lemma new_calls_append: "calls k' = calls k @ d \<Longrightarrow> new_calls k k' = d"
  by (simp add: new_calls_def)

lemma extends_fold:
  assumes "\<And>x s. extends P (g s) (g (f x s))"
  shows "extends P (g s) (g (fold f xs s))"
proof (induction xs arbitrary: s)
  case Nil
  show ?case by (simp add: extends_refl)
next
  case (Cons x xs)
  have "extends P (g s) (g (f x s))" by (rule assms)
  moreover have "extends P (g (f x s)) (g (fold f xs (f x s)))" by (rule Cons.IH)
  ultimately show ?case by (simp add: extends_trans)
qed

lemma extends_fold_kernel:
  assumes "\<And>x k. extends P k (f x k)"
  shows "extends P k (fold f xs k)"
  using extends_fold[of P "\<lambda>k. k" f k xs] assms by simp

subsection \<open>Refinement of lines and fields\<close>

lemma Line_after_sync_extends:
  "extends is_curve_constraint (snd s) (snd (Line_after_sync a s))"
  by (cases s) (simp add: Line_after_sync.simps Let_def extends_refl extends_kernel_void split: option.splits)

lemma calls_set_number_if:
  "calls (set_number_if b t key v k) = calls k @ opt_call b (FieldSetNumber t key v)"
  by (simp add: set_number_if_def opt_call_def calls_kernel_void)

lemma reply_set_number_if: "reply (set_number_if b t key v k) = reply k"
  by (simp add: set_number_if_def reply_kernel_void)

lemma calls_set_float_attr:
  "calls (set_float_attr v t key k) = calls k @ float_call v t key"
  by (simp add: set_float_attr_def float_call_def calls_kernel_void split: option.splits)

lemma reply_set_float_attr: "reply (set_float_attr v t key k) = reply k"
  by (simp add: set_float_attr_def reply_kernel_void split: option.splits)

lemma opt_call_same:
  "opt_call b (FieldSetNumber t key (PyInt (if b then 1 else 0))) = opt_call b (FieldSetNumber t key (PyInt 1))"
  "opt_call b (FieldSetNumber t key (PyBool b)) = opt_call b (FieldSetNumber t key (PyBool True))"
  by (simp_all add: opt_call_def)

lemma BoundaryLayer_after_sync_calls:
  assumes "boundary_layer (field_at h f) = Some bl"
    and "\<not> after_sync_initiated (field_at h f)"
  shows "calls (snd (Field_after_sync f c (h, k))) =
           calls k @ BoundaryLayer_calls (reply k (calls k) (FieldAdd ''BoundaryLayer''))
                       (line_tags (loop_at h c)) bl"
  using assms
  by (simp add: Field_after_sync.simps Let_def kernel_do_def calls_kernel_void calls_set_number_if
      calls_set_float_attr upd_field_def BoundaryLayer_calls_def opt_call_same split del: if_split)

lemma Field_after_sync_reply: "reply (snd (Field_after_sync f c (h, k))) = reply k"
  by (cases "after_sync_initiated (field_at h f)")
     (simp_all add: Field_after_sync.simps Let_def kernel_do_def reply_kernel_void reply_set_number_if
      reply_set_float_attr split: option.splits split del: if_split)

lemma Field_after_sync_skip:
  assumes "boundary_layer (field_at h f) = None \<or> after_sync_initiated (field_at h f)"
  shows "snd (Field_after_sync f c (h, k)) = k"
  using assms by (auto simp add: Field_after_sync.simps Let_def split: option.splits)

lemma BoundaryLayer_calls_field: "list_all is_field_call (BoundaryLayer_calls t cs bl)"
  by (simp add: BoundaryLayer_calls_def opt_call_def float_call_def split: option.splits)

lemma Field_after_sync_extends:
  "extends is_field_call (snd s) (snd (Field_after_sync f c s))"
proof (cases s)
  case (Pair h k)
  show ?thesis
  proof (cases "boundary_layer (field_at h f) = None \<or> after_sync_initiated (field_at h f)")
    case True
    then show ?thesis using Pair Field_after_sync_skip[of h f c k] by (simp add: extends_refl)
  next
    case False
    then obtain bl where "boundary_layer (field_at h f) = Some bl" "\<not> after_sync_initiated (field_at h f)"
      by auto
    from BoundaryLayer_after_sync_calls[OF this, of c k] Field_after_sync_reply[of f c h k] Pair
    show ?thesis unfolding extends_def
      using BoundaryLayer_calls_field by auto
  qed
qed

subsection \<open>Refinement of loops and surfaces\<close>

lemma CurveLoop_after_sync_line_extends:
  "extends is_curve_constraint (snd (snd s)) (snd (snd (CurveLoop_after_sync_line l s)))"
proof (cases s)
  case (fields g h k)
  obtain h1 k1 where r: "Line_after_sync l (h, k) = (h1, k1)" by (cases "Line_after_sync l (h, k)")
  from Line_after_sync_extends[of "(h, k)" l] r have "extends is_curve_constraint k k1" by simp
  with fields r show ?thesis by (simp add: CurveLoop_after_sync_line.simps Let_def)
qed

lemma CurveLoop_after_sync_group_extends:
  "extends is_physical_group k (CurveLoop_after_sync_group g k)"
  by (cases g) (simp add: CurveLoop_after_sync_group.simps extends_def kernel_do_def kernel_void_def)

lemma CurveLoop_after_sync_extends:
  "extends is_loop_refinement (snd s) (snd (CurveLoop_after_sync c s))"
proof (cases s)
  case (Pair h k)
  show ?thesis
  proof (cases "after_sync_initiated (loop_at h c)")
    case True
    with Pair show ?thesis by (simp add: CurveLoop_after_sync.simps extends_refl)
  next
    case False
    obtain g h1 k1 where r: "fold CurveLoop_after_sync_line (loop_lines (loop_at h c)) ([], h, k) = (g, h1, k1)"
      by (cases "fold CurveLoop_after_sync_line (loop_lines (loop_at h c)) ([], h, k)")
    have "extends is_curve_constraint (snd (snd ([]::line_groups, h, k)))
            (snd (snd (fold CurveLoop_after_sync_line (loop_lines (loop_at h c)) ([], h, k))))"
      by (rule extends_fold) (rule CurveLoop_after_sync_line_extends)
    with r have e1: "extends is_loop_refinement k k1"
      by (auto intro: extends_mono simp: is_loop_refinement_def)
    have "extends is_physical_group k1 (fold CurveLoop_after_sync_group g k1)"
      by (rule extends_fold_kernel) (rule CurveLoop_after_sync_group_extends)
    then have e2: "extends is_loop_refinement k1 (fold CurveLoop_after_sync_group g k1)"
      by (auto intro: extends_mono simp: is_loop_refinement_def)
    let ?k2 = "fold CurveLoop_after_sync_group g k1"
    have "extends is_field_call (snd (h1, ?k2))
            (snd (fold (\<lambda>f. Field_after_sync f c) (loop_fields (loop_at h1 c)) (h1, ?k2)))"
      by (rule extends_fold) (rule Field_after_sync_extends)
    then have e3: "extends is_loop_refinement ?k2
            (snd (fold (\<lambda>f. Field_after_sync f c) (loop_fields (loop_at h1 c)) (h1, ?k2)))"
      by (auto intro: extends_mono simp: is_loop_refinement_def)
    from extends_trans[OF extends_trans[OF e1 e2] e3] Pair False r
    show ?thesis by (simp add: CurveLoop_after_sync.simps Let_def split_beta)
  qed
qed

lemma PlaneSurface_own_extends:
  "extends is_base_refinement k (PlaneSurface_recombine ps (PlaneSurface_label_group ps k))"
proof -
  have "extends is_base_refinement k (PlaneSurface_label_group ps k)"
    by (simp add: PlaneSurface_label_group_def extends_def kernel_do_def kernel_void_def
        is_base_refinement_def is_loop_refinement_def split: option.splits)
  moreover have "extends is_base_refinement (PlaneSurface_label_group ps k)
      (PlaneSurface_recombine ps (PlaneSurface_label_group ps k))"
    by (simp add: PlaneSurface_recombine_def extends_refl extends_kernel_void is_base_refinement_def)
  ultimately show ?thesis by (rule extends_trans)
qed

lemma PlaneSurface_after_sync_base_extends:
  "extends is_base_refinement (snd s) (snd (PlaneSurface_after_sync_base a s))"
proof (cases s)
  case (Pair h k)
  show ?thesis
  proof (cases "after_sync_initiated (surface_at h a)")
    case True
    with Pair show ?thesis by (simp add: PlaneSurface_after_sync_base.simps extends_refl)
  next
    case False
    obtain h1 k1 where r: "fold CurveLoop_after_sync (curve_loops (surface_at h a)) (h, k) = (h1, k1)"
      by (cases "fold CurveLoop_after_sync (curve_loops (surface_at h a)) (h, k)")
    have "extends is_loop_refinement (snd (h, k))
            (snd (fold CurveLoop_after_sync (curve_loops (surface_at h a)) (h, k)))"
      by (rule extends_fold) (rule CurveLoop_after_sync_extends)
    with r have e1: "extends is_base_refinement k k1"
      by (auto intro: extends_mono simp: is_base_refinement_def)
    from extends_trans[OF e1 PlaneSurface_own_extends[of k1 "surface_at h1 a"]] Pair False r
    show ?thesis by (simp add: PlaneSurface_after_sync_base.simps Let_def split_beta)
  qed
qed

lemma PlaneSurface_after_sync_extends:
  "extends is_phase2 (snd s) (snd (PlaneSurface_after_sync a s))"
proof (cases s)
  case (Pair h k)
  have base: "extends is_phase2 k0 (snd (PlaneSurface_after_sync_base a (h, k0)))" for k0
    using PlaneSurface_after_sync_base_extends[of "(h, k0)" a]
    by (auto intro: extends_mono simp: is_phase2_def)
  show ?thesis
  proof (cases "corners (surface_at h a)")
    case None
    with Pair base show ?thesis by (simp add: PlaneSurface_after_sync.simps)
  next
    case (Some cs)
    let ?c = "SetTransfiniteSurface (tag (surface_at h a)) (map (\<lambda>corner. tag (point_at h corner)) cs)"
    have "extends is_phase2 k (kernel_void ?c k)"
      by (rule extends_kernel_void) (simp add: is_phase2_def)
    from extends_trans[OF this base] Pair Some base
    show ?thesis by (simp add: PlaneSurface_after_sync.simps Let_def)
  qed
qed

lemma fold_preserves:
  assumes "\<And>x s. g (f x s) = g s"
  shows "g (fold f xs s) = g s"
  by (induction xs arbitrary: s) (simp_all add: assms)

subsection \<open>Refinement leaves the surfaces' own fields alone\<close>

lemma Line_after_sync_heap: "fst (Line_after_sync a (h, k)) = upd_line a MeshTransaction_after_sync h"
  by (simp add: Line_after_sync.simps Let_def)

lemma Field_after_sync_surface: "surface_at (fst (Field_after_sync f c s)) = surface_at (fst s)"
  by (cases s) (simp add: Field_after_sync.simps Let_def upd_field_def split_beta split: option.splits)

lemma CurveLoop_after_sync_line_surface:
  "surface_at (fst (snd (CurveLoop_after_sync_line l s))) = surface_at (fst (snd s))"
  by (cases s) (simp add: CurveLoop_after_sync_line.simps Let_def split_beta Line_after_sync_heap upd_line_def)

lemma CurveLoop_after_sync_surface: "surface_at (fst (CurveLoop_after_sync c s)) = surface_at (fst s)"
proof (cases s)
  case (Pair h k)
  have 1: "surface_at (fst (snd (fold CurveLoop_after_sync_line ls (g, h, k)))) = surface_at h" for ls g
    using fold_preserves[of "\<lambda>s. surface_at (fst (snd s))" CurveLoop_after_sync_line ls "(g, h, k)"]
    by (simp add: CurveLoop_after_sync_line_surface)
  have 2: "surface_at (fst (fold (\<lambda>f. Field_after_sync f c) fs s0)) = surface_at (fst s0)" for fs s0
    by (rule fold_preserves) (rule Field_after_sync_surface)
  show ?thesis using Pair
    by (simp add: CurveLoop_after_sync.simps Let_def split_beta upd_loop_def 1 2)
qed

lemma CurveLoop_after_sync_fold_surface:
  "surface_at (fst (fold CurveLoop_after_sync cs s)) = surface_at (fst s)"
  by (rule fold_preserves) (rule CurveLoop_after_sync_surface)

lemma PlaneSurface_own_calls:
  "calls (PlaneSurface_recombine ps (PlaneSurface_label_group ps k)) =
     calls k @ PlaneSurface_own_calls (reply k) (calls k) ps"
  by (simp add: PlaneSurface_recombine_def PlaneSurface_label_group_def PlaneSurface_own_calls_def
      kernel_do_def kernel_void_def split: option.splits)

lemma PlaneSurface_after_sync_base_calls:
  assumes "\<not> after_sync_initiated (surface_at h s)"
  shows "\<exists>d. calls (snd (PlaneSurface_after_sync_base s (h, k))) =
               calls k @ d @ PlaneSurface_own_calls (reply k) (calls k @ d) (surface_at h s)
             \<and> list_all is_loop_refinement d
             \<and> snd (fold CurveLoop_after_sync (curve_loops (surface_at h s)) (h, k)) = k\<lparr>calls := calls k @ d\<rparr>"
proof -
  obtain h1 k1 where r: "fold CurveLoop_after_sync (curve_loops (surface_at h s)) (h, k) = (h1, k1)"
    by (cases "fold CurveLoop_after_sync (curve_loops (surface_at h s)) (h, k)")
  have "extends is_loop_refinement (snd (h, k))
          (snd (fold CurveLoop_after_sync (curve_loops (surface_at h s)) (h, k)))"
    by (rule extends_fold) (rule CurveLoop_after_sync_extends)
  with r obtain d where d: "calls k1 = calls k @ d" "list_all is_loop_refinement d" "reply k1 = reply k"
    by (auto simp: extends_def)
  have fr: "surface_at h1 s = surface_at h s"
    using CurveLoop_after_sync_fold_surface[of "curve_loops (surface_at h s)" "(h, k)"] r by simp
  have "calls (snd (PlaneSurface_after_sync_base s (h, k))) =
          calls k @ d @ PlaneSurface_own_calls (reply k) (calls k @ d) (surface_at h s)"
    using assms r fr d
    by (simp add: PlaneSurface_after_sync_base.simps Let_def PlaneSurface_own_calls)
  moreover have "k1 = k\<lparr>calls := calls k @ d\<rparr>" using d by simp
  ultimately show ?thesis using d r by auto
qed

text \<open>
  Claim C6, as amended. For a TransfinitePlaneSurface that has not been refined yet,
  \<^verbatim>\<open>after_sync\<close> first sends the structured-surface constraint with the surface's tag and
  the tags of the declared corner points, and only afterwards performs the base
  PlaneSurface refinement: the calls \<open>d\<close> of refining the constituent loops, then the
  surface's physical group if it is labelled, then the quad recombination if requested.
  The calls \<open>d\<close> are exactly those that \<^verbatim>\<open>after_sync\<close> of the surface's loops, in their
  order, sends to the kernel that has received the constraint.
\<close>

theorem transfinite_surface_constraint_first:
  assumes "corners (surface_at h s) = Some cs"
    and "\<not> after_sync_initiated (surface_at h s)"
  shows "\<exists>d. new_calls k (snd (PlaneSurface_after_sync s (h, k))) =
               SetTransfiniteSurface (tag (surface_at h s)) (map (\<lambda>c. tag (point_at h c)) cs)
               # d
               @ PlaneSurface_own_calls (reply k)
                   (calls k @ SetTransfiniteSurface (tag (surface_at h s)) (map (\<lambda>c. tag (point_at h c)) cs) # d)
                   (surface_at h s)
             \<and> list_all is_loop_refinement d
             \<and> snd (fold CurveLoop_after_sync (curve_loops (surface_at h s))
                   (h, kernel_void (SetTransfiniteSurface (tag (surface_at h s)) (map (\<lambda>c. tag (point_at h c)) cs)) k)) =
                 (kernel_void (SetTransfiniteSurface (tag (surface_at h s)) (map (\<lambda>c. tag (point_at h c)) cs)) k)
                   \<lparr>calls := calls k
                      @ SetTransfiniteSurface (tag (surface_at h s)) (map (\<lambda>c. tag (point_at h c)) cs) # d\<rparr>"
proof -
  let ?c = "SetTransfiniteSurface (tag (surface_at h s)) (map (\<lambda>c. tag (point_at h c)) cs)"
  from PlaneSurface_after_sync_base_calls[OF assms(2), of "kernel_void ?c k"]
  obtain d where d: "calls (snd (PlaneSurface_after_sync_base s (h, kernel_void ?c k))) =
      calls (kernel_void ?c k) @ d
        @ PlaneSurface_own_calls (reply (kernel_void ?c k)) (calls (kernel_void ?c k) @ d) (surface_at h s)"
    "list_all is_loop_refinement d"
    "snd (fold CurveLoop_after_sync (curve_loops (surface_at h s)) (h, kernel_void ?c k)) =
       (kernel_void ?c k)\<lparr>calls := calls (kernel_void ?c k) @ d\<rparr>"
    by blast
  have "PlaneSurface_after_sync s (h, k) = PlaneSurface_after_sync_base s (h, kernel_void ?c k)"
    using assms by (simp add: PlaneSurface_after_sync.simps Let_def)
  with d show ?thesis
    by (intro exI[of _ d]) (simp add: new_calls_def calls_kernel_void reply_kernel_void)
qed

text \<open>
  The claim C6 as stated fails: on the labelled, recombined transfinite surface of
  \<open>tri_heap\<close> the structured-surface constraint is the first call of the refinement, before
  the loop's physical group, the surface's physical group and the recombination.
\<close>

theorem transfinite_surface_order_counterexample:
  "corners (surface_at tri_heap 4) = Some [1, 2, 3]
   \<and> new_calls counting_kernel
        (snd (PlaneSurface_after_sync 4 (PlaneSurface_before_sync 4 (tri_heap, counting_kernel)))) =
     [AddPoint 0 0 0 0, AddPoint 0 0 0 0, AddLine (Some 1) (Some 2), AddPoint 0 0 0 0,
      AddLine (Some 2) (Some 4), AddLine (Some 4) (Some 1), AddCurveLoop [Some 3, Some 5, Some 6],
      AddPlaneSurface [Some 7],
      SetTransfiniteSurface (Some 8) [Some 1, Some 2, Some 4],
      AddPhysicalGroup 1 [Some 3, Some 6], SetPhysicalName 1 10 ''wall'',
      AddPhysicalGroup 2 [Some 8], SetPhysicalName 2 12 ''domain'',
      SetRecombine 2 (Some 8)]"
  by (simp add: tri_heap_def run_defs new_calls_def)

theorem transfinite_surface_constraint_first_witness:
  "new_calls (snd (PlaneSurface_before_sync 4 (tri_heap, counting_kernel)))
          (snd (PlaneSurface_after_sync 4 (PlaneSurface_before_sync 4 (tri_heap, counting_kernel)))) =
        [SetTransfiniteSurface (Some 8) [Some 1, Some 2, Some 4],
         AddPhysicalGroup 1 [Some 3, Some 6], SetPhysicalName 1 10 ''wall'',
         AddPhysicalGroup 2 [Some 8], SetPhysicalName 2 12 ''domain'',
         SetRecombine 2 (Some 8)]
   \<and> new_calls
        (kernel_void (SetTransfiniteSurface (Some 8) [Some 1, Some 2, Some 4])
           (snd (PlaneSurface_before_sync 4 (tri_heap, counting_kernel))))
        (snd (fold CurveLoop_after_sync [3]
           (fst (PlaneSurface_before_sync 4 (tri_heap, counting_kernel)),
            kernel_void (SetTransfiniteSurface (Some 8) [Some 1, Some 2, Some 4])
              (snd (PlaneSurface_before_sync 4 (tri_heap, counting_kernel)))))) =
        [AddPhysicalGroup 1 [Some 3, Some 6], SetPhysicalName 1 10 ''wall'']"
  using transfinite_surface_constraint_first [of "fst (PlaneSurface_before_sync 4 (tri_heap, counting_kernel))" 4
      "[1, 2, 3]" "snd (PlaneSurface_before_sync 4 (tri_heap, counting_kernel))"]
  by (simp add: tri_heap_def run_defs new_calls_def PlaneSurface_own_calls_def)

subsection \<open>BoundaryLayer attributes\<close>

lemma set_numbers_append: "set_numbers (xs @ ys) = set_numbers xs @ set_numbers ys"
  by (induction xs rule: set_numbers.induct) simp_all

lemma set_numbers_float_call:
  "set (set_numbers (float_call v t key)) = {p. (\<exists>r. v = Some r \<and> r \<noteq> 0) \<and> p = (key, PyFloat (the v))}"
  by (cases v) (auto simp: float_call_def)

lemma set_numbers_opt_call:
  "set (set_numbers (opt_call b (FieldSetNumber t key v))) = {p. b \<and> p = (key, v)}"
  by (auto simp: opt_call_def)

lemma set_numbers_BoundaryLayer_calls:
  "set (set_numbers (BoundaryLayer_calls t cs bl)) =
     {p. (\<exists>r. aniso_max bl = Some r \<and> r \<noteq> 0) \<and> p = (''AnisoMax'', PyFloat (the (aniso_max bl)))}
     \<union> {p. intersect_metrics bl \<and> p = (''IntersectMetrics'', PyBool True)}
     \<union> {p. bl_is_quad_mesh bl \<and> p = (''Quads'', PyInt 1)}
     \<union> {p. (\<exists>r. hfar bl = Some r \<and> r \<noteq> 0) \<and> p = (''hfar'', PyFloat (the (hfar bl)))}
     \<union> {p. (\<exists>r. hwall_n bl = Some r \<and> r \<noteq> 0) \<and> p = (''hwall_n'', PyFloat (the (hwall_n bl)))}
     \<union> {p. (\<exists>r. ratio bl = Some r \<and> r \<noteq> 0) \<and> p = (''ratio'', PyFloat (the (ratio bl)))}
     \<union> {p. (\<exists>r. thickness bl = Some r \<and> r \<noteq> 0) \<and> p = (''thickness'', PyFloat (the (thickness bl)))}"
  unfolding BoundaryLayer_calls_def set_numbers_append set_append set_numbers_float_call set_numbers_opt_call
  by (simp add: Un_assoc)

lemma sets_number_iff: "sets_number d key \<longleftrightarrow> (\<exists>v. (key, v) \<in> set (set_numbers d))"
  by (force simp: sets_number_def)

text \<open>
  Claim C5, as amended. For a BoundaryLayer field that has not been refined yet,
  \<^verbatim>\<open>after_sync\<close> issues a set-number call for one of the five float attributes if and only
  if the attribute holds a value other than zero, and for one of the two boolean
  attributes if and only if it is True; every set-number call carries the attribute's own
  value, so an attribute that is \<^verbatim>\<open>None\<close> is never set and no sentinel is sent.
\<close>

theorem boundary_layer_sets_truthy_attributes:
  assumes "boundary_layer (field_at h f) = Some bl"
    and "\<not> after_sync_initiated (field_at h f)"
    and "d = new_calls k (snd (Field_after_sync f c (h, k)))"
  shows "(sets_number d ''AnisoMax'' \<longleftrightarrow> (\<exists>r. aniso_max bl = Some r \<and> r \<noteq> 0))
       \<and> (sets_number d ''hfar'' \<longleftrightarrow> (\<exists>r. hfar bl = Some r \<and> r \<noteq> 0))
       \<and> (sets_number d ''hwall_n'' \<longleftrightarrow> (\<exists>r. hwall_n bl = Some r \<and> r \<noteq> 0))
       \<and> (sets_number d ''ratio'' \<longleftrightarrow> (\<exists>r. ratio bl = Some r \<and> r \<noteq> 0))
       \<and> (sets_number d ''thickness'' \<longleftrightarrow> (\<exists>r. thickness bl = Some r \<and> r \<noteq> 0))
       \<and> (sets_number d ''IntersectMetrics'' \<longleftrightarrow> intersect_metrics bl)
       \<and> (sets_number d ''Quads'' \<longleftrightarrow> bl_is_quad_mesh bl)
       \<and> set (set_numbers d) \<subseteq>
            {(''AnisoMax'', PyFloat (the (aniso_max bl))), (''hfar'', PyFloat (the (hfar bl))),
             (''hwall_n'', PyFloat (the (hwall_n bl))), (''ratio'', PyFloat (the (ratio bl))),
             (''thickness'', PyFloat (the (thickness bl))), (''IntersectMetrics'', PyBool True),
             (''Quads'', PyInt 1)}"
proof -
  have d: "d = BoundaryLayer_calls (reply k (calls k) (FieldAdd ''BoundaryLayer'')) (line_tags (loop_at h c)) bl"
    using BoundaryLayer_after_sync_calls[OF assms(1,2), of c k] assms(3) by (simp add: new_calls_append)
  have 1: "sets_number d ''AnisoMax'' \<longleftrightarrow> (\<exists>r. aniso_max bl = Some r \<and> r \<noteq> 0)"
    unfolding d sets_number_iff set_numbers_BoundaryLayer_calls by simp
  have 2: "sets_number d ''hfar'' \<longleftrightarrow> (\<exists>r. hfar bl = Some r \<and> r \<noteq> 0)"
    unfolding d sets_number_iff set_numbers_BoundaryLayer_calls by simp
  have 3: "sets_number d ''hwall_n'' \<longleftrightarrow> (\<exists>r. hwall_n bl = Some r \<and> r \<noteq> 0)"
    unfolding d sets_number_iff set_numbers_BoundaryLayer_calls by simp
  have 4: "sets_number d ''ratio'' \<longleftrightarrow> (\<exists>r. ratio bl = Some r \<and> r \<noteq> 0)"
    unfolding d sets_number_iff set_numbers_BoundaryLayer_calls by simp
  have 5: "sets_number d ''thickness'' \<longleftrightarrow> (\<exists>r. thickness bl = Some r \<and> r \<noteq> 0)"
    unfolding d sets_number_iff set_numbers_BoundaryLayer_calls by simp
  have 6: "sets_number d ''IntersectMetrics'' \<longleftrightarrow> intersect_metrics bl"
    unfolding d sets_number_iff set_numbers_BoundaryLayer_calls by simp
  have 7: "sets_number d ''Quads'' \<longleftrightarrow> bl_is_quad_mesh bl"
    unfolding d sets_number_iff set_numbers_BoundaryLayer_calls by simp
  have 8: "set (set_numbers d) \<subseteq>
            {(''AnisoMax'', PyFloat (the (aniso_max bl))), (''hfar'', PyFloat (the (hfar bl))),
             (''hwall_n'', PyFloat (the (hwall_n bl))), (''ratio'', PyFloat (the (ratio bl))),
             (''thickness'', PyFloat (the (thickness bl))), (''IntersectMetrics'', PyBool True),
             (''Quads'', PyInt 1)}"
    unfolding d set_numbers_BoundaryLayer_calls by (simp add: subset_iff)
  show ?thesis by (intro conjI 1 2 3 4 5 6 7 8)
qed


theorem boundary_layer_sets_truthy_attributes_witness:
  "sets_number (new_calls counting_kernel (snd (Field_after_sync 0 0 (bl_heap, counting_kernel)))) ''AnisoMax''
   \<and> sets_number (new_calls counting_kernel (snd (Field_after_sync 0 0 (bl_heap, counting_kernel)))) ''Quads''
   \<and> \<not> sets_number (new_calls counting_kernel (snd (Field_after_sync 0 0 (bl_heap, counting_kernel)))) ''ratio''"
  using boundary_layer_sets_truthy_attributes [of bl_heap 0
      "\<lparr>aniso_max = Some 2, hfar = Some 0, hwall_n = None, ratio = None,
        thickness = None, intersect_metrics = False, bl_is_quad_mesh = True\<rparr>"
      "new_calls counting_kernel (snd (Field_after_sync 0 0 (bl_heap, counting_kernel)))" counting_kernel 0]
  by (simp add: bl_heap_def Field_new_def blank_heap_def)

text \<open>
  The claim C5 as stated fails: a BoundaryLayer built with \<^verbatim>\<open>hfar=0.0\<close> has the attribute
  provided, and \<^verbatim>\<open>after_sync\<close> issues no set-number call for it.
\<close>

theorem boundary_layer_zero_counterexample:
  "hfar (the (boundary_layer (field_at bl_heap 0))) = Some 0
   \<and> \<not> after_sync_initiated (field_at bl_heap 0)
   \<and> new_calls counting_kernel (snd (Field_after_sync 0 0 (bl_heap, counting_kernel))) =
       [FieldAdd ''BoundaryLayer'', FieldSetNumbers 1 ''CurvesList'' [],
        FieldSetNumber 1 ''AnisoMax'' (PyFloat 2), FieldSetNumber 1 ''Quads'' (PyInt 1),
        FieldSetAsBoundaryLayer 1]
   \<and> \<not> sets_number (new_calls counting_kernel (snd (Field_after_sync 0 0 (bl_heap, counting_kernel)))) ''hfar''"
  by (simp add: bl_heap_def run_defs new_calls_def sets_number_def)

subsection \<open>The session\<close>

text \<open>
  The claim C7 as stated fails: opening a session twice returns normally and the kernel
  receives two initialize calls; \<^verbatim>\<open>write\<close> on a session that was never opened returns
  normally and the kernel receives the write call.
\<close>

theorem geometry_lifecycle_counterexample:
  "ebind (Geometry_enter counting_kernel) Geometry_enter = Inr (counting_kernel\<lparr>calls := [Initialize, Initialize]\<rparr>)
   \<and> Geometry_write ''mesh.msh'' counting_kernel = Inr (counting_kernel\<lparr>calls := [Write ''mesh.msh'']\<rparr>)"
  by (simp add: ebind_def Geometry_enter_def Geometry_write_def kernel_void_def kernel_do_def counting_kernel_def)

text \<open>
  Claim C7, as amended. \<^verbatim>\<open>Geometry\<close> keeps no lifecycle state: entering, leaving and
  \<^verbatim>\<open>write\<close> each delegate to the kernel in every state of the session and raise no error
  of their own.
\<close>

theorem geometry_delegates_unconditionally:
  "Geometry_enter k = Inr (k\<lparr>calls := calls k @ [Initialize]\<rparr>)
   \<and> Geometry_exit k = Inr (k\<lparr>calls := calls k @ [Finalize]\<rparr>)
   \<and> Geometry_write filename k = Inr (k\<lparr>calls := calls k @ [Write filename]\<rparr>)"
  by (simp add: Geometry_enter_def Geometry_exit_def Geometry_write_def kernel_void_def kernel_do_def)

subsection \<open>Label groups of a curve loop\<close>

lemma CurveLoop_after_sync_line_groups:
  "fst (CurveLoop_after_sync_line l (g, h, k)) = add_to_groups (line_label (line_at h l), tag (line_at h l)) g"
  by (simp add: CurveLoop_after_sync_line.simps add_to_groups_def Let_def split_beta split: option.splits)

lemma CurveLoop_after_sync_line_heap:
  "fst (snd (CurveLoop_after_sync_line l (g, h, k))) = upd_line l MeshTransaction_after_sync h"
  by (simp add: CurveLoop_after_sync_line.simps Let_def split_beta Line_after_sync_heap)

lemma upd_line_after_label_tag:
  "line_label (line_at (upd_line l MeshTransaction_after_sync h) x) = line_label (line_at h x)"
  "tag (line_at (upd_line l MeshTransaction_after_sync h) x) = tag (line_at h x)"
  by (simp_all add: store_defs)

lemma fold_CurveLoop_after_sync_line_groups:
  "fst (fold CurveLoop_after_sync_line ls (g, h, k)) =
     fold add_to_groups (map (\<lambda>l. (line_label (line_at h l), tag (line_at h l))) ls) g"
proof (induction ls arbitrary: g h k)
  case Nil
  show ?case by simp
next
  case (Cons l ls)
  obtain g1 h1 k1 where s: "CurveLoop_after_sync_line l (g, h, k) = (g1, h1, k1)"
    by (cases "CurveLoop_after_sync_line l (g, h, k)")
  have g1: "g1 = add_to_groups (line_label (line_at h l), tag (line_at h l)) g"
    using CurveLoop_after_sync_line_groups[of l g h k] s by simp
  have h1: "h1 = upd_line l MeshTransaction_after_sync h"
    using CurveLoop_after_sync_line_heap[of l g h k] s by simp
  show ?case
    by (simp add: s Cons.IH) (simp add: g1 h1 upd_line_after_label_tag)
qed

lemma group_calls_fold:
  "calls (fold CurveLoop_after_sync_group g k) = calls k @ group_calls (reply k) (calls k) g
   \<and> reply (fold CurveLoop_after_sync_group g k) = reply k"
proof (induction g arbitrary: k)
  case Nil
  show ?case by simp
next
  case (Cons p g)
  obtain label ts where p: "p = (label, ts)" by (cases p)
  let ?k1 = "CurveLoop_after_sync_group (label, ts) k"
  have k1: "calls ?k1 = calls k @ [AddPhysicalGroup 1 ts, SetPhysicalName 1 (reply k (calls k) (AddPhysicalGroup 1 ts)) label]"
    "reply ?k1 = reply k"
    by (simp_all add: CurveLoop_after_sync_group.simps kernel_defs)
  show ?case using Cons.IH[of ?k1] by (simp add: p k1)
qed

subsection \<open>The dict of label groups\<close>

lemma keys_dict_append: "map fst (dict_append g l t) = map fst g"
  by (induction g) (auto simp: dict_append_def)

lemma map_of_dict_append:
  "map_of (dict_append g l t) l' =
     (if l' = l then map_option (\<lambda>vs. vs @ [t]) (map_of g l) else map_of g l')"
  by (induction g) (auto simp: dict_append_def)

lemma map_of_no_key: "\<forall>x\<in>set g. l \<noteq> fst x \<Longrightarrow> map_of g l = None"
  by (induction g) auto

lemma filter_no_label: "Some l \<notin> fst ` set ps \<Longrightarrow> filter (\<lambda>p. fst p = Some l) ps = []"
  by (induction ps) auto

lemma keys_dict_setdefault_empty:
  "map fst (dict_setdefault_empty g l) = (if l \<in> set (map fst g) then map fst g else map fst g @ [l])"
  by (simp add: dict_setdefault_empty_def)

lemma key_iff_map_of: "l \<in> set (map fst g) \<longleftrightarrow> map_of g l \<noteq> None"
  by (simp add: map_of_eq_None_iff)

lemma map_of_dict_setdefault_empty:
  "map_of (dict_setdefault_empty g l) l' =
     (if l' = l \<and> map_of g l = None then Some [] else map_of g l')"
  unfolding dict_setdefault_empty_def key_iff_map_of
  by (auto simp: map_add_def split: option.splits)

lemma keys_add_to_groups:
  "map fst (add_to_groups p g) =
     (case fst p of None \<Rightarrow> map fst g
      | Some l \<Rightarrow> if l \<noteq> [] \<and> l \<notin> set (map fst g) then map fst g @ [l] else map fst g)"
  by (simp add: add_to_groups_def keys_dict_append keys_dict_setdefault_empty split: option.splits)

lemma distinct_add_to_groups: "distinct (map fst g) \<Longrightarrow> distinct (map fst (add_to_groups p g))"
  by (simp add: keys_add_to_groups split: option.splits)

lemma distinct_fold_add_to_groups:
  "distinct (map fst g) \<Longrightarrow> distinct (map fst (fold add_to_groups ps g))"
  by (induction ps arbitrary: g) (simp_all add: distinct_add_to_groups)

lemma map_of_add_to_groups:
  "map_of (add_to_groups p g) l =
     (if fst p = Some l \<and> l \<noteq> [] then Some (vals g l @ [snd p]) else map_of g l)"
  by (cases "fst p")
     (auto simp: add_to_groups_def map_of_dict_append map_of_dict_setdefault_empty vals_def
        split: option.splits)

lemma map_of_fold_add_to_groups:
  "map_of (fold add_to_groups ps g) l =
     (if l \<noteq> [] \<and> Some l \<in> fst ` set ps
      then Some (vals g l @ map snd (filter (\<lambda>p. fst p = Some l) ps))
      else map_of g l)"
proof (induction ps arbitrary: g)
  case Nil
  show ?case by simp
next
  case (Cons p ps)
  show ?case
    by (auto simp add: Cons.IH map_of_add_to_groups vals_def filter_no_label)
qed

lemma assoc_list_by_keys:
  assumes "distinct (map fst g)"
  shows "map (\<lambda>l. (l, the (map_of g l))) (map fst g) = g"
proof -
  have "(fst p, the (map_of g (fst p))) = p" if "p \<in> set g" for p
  proof -
    from that have "(fst p, snd p) \<in> set g" by simp
    with assms have "map_of g (fst p) = Some (snd p)" by (simp only: map_of_eq_Some_iff)
    then show ?thesis by simp
  qed
  then show ?thesis by (simp add: o_def map_idI)
qed

lemma CurveLoop_after_sync_calls:
  assumes "\<not> after_sync_initiated (loop_at h c)"
  shows "\<exists>mid post.
           calls (snd (CurveLoop_after_sync c (h, k))) =
             calls k @ mid @ group_calls (reply k) (calls k @ mid) (loop_groups h c) @ post
         \<and> list_all is_curve_constraint mid \<and> list_all is_field_call post
         \<and> snd (snd (fold CurveLoop_after_sync_line (loop_lines (loop_at h c)) ([], h, k))) =
             k\<lparr>calls := calls k @ mid\<rparr>"
proof -
  let ?ls = "loop_lines (loop_at h c)"
  obtain g h1 k1 where r: "fold CurveLoop_after_sync_line ?ls ([], h, k) = (g, h1, k1)"
    by (cases "fold CurveLoop_after_sync_line ?ls ([], h, k)")
  have g: "g = loop_groups h c"
    using fold_CurveLoop_after_sync_line_groups[of ?ls "[]" h k] r by (simp add: loop_groups_def)
  have "extends is_curve_constraint (snd (snd ([]::line_groups, h, k)))
          (snd (snd (fold CurveLoop_after_sync_line ?ls ([], h, k))))"
    by (rule extends_fold) (rule CurveLoop_after_sync_line_extends)
  with r obtain mid where mid: "calls k1 = calls k @ mid" "list_all is_curve_constraint mid" "reply k1 = reply k"
    by (auto simp: extends_def)
  let ?k2 = "fold CurveLoop_after_sync_group g k1"
  have k2: "calls ?k2 = calls k @ mid @ group_calls (reply k) (calls k @ mid) g" "reply ?k2 = reply k"
    using group_calls_fold[of g k1] mid by simp_all
  let ?s3 = "fold (\<lambda>f. Field_after_sync f c) (loop_fields (loop_at h1 c)) (h1, ?k2)"
  have "extends is_field_call (snd (h1, ?k2)) (snd ?s3)"
    by (rule extends_fold) (rule Field_after_sync_extends)
  then obtain post where post: "calls (snd ?s3) = calls ?k2 @ post" "list_all is_field_call post"
    by (auto simp: extends_def)
  have "snd (CurveLoop_after_sync c (h, k)) = snd ?s3"
    using assms r by (simp add: CurveLoop_after_sync.simps Let_def split_beta)
  then have a: "calls (snd (CurveLoop_after_sync c (h, k))) =
      calls k @ mid @ group_calls (reply k) (calls k @ mid) (loop_groups h c) @ post"
    using post(1) k2(1) g by simp
  have b: "snd (snd (fold CurveLoop_after_sync_line ?ls ([], h, k))) = k\<lparr>calls := calls k @ mid\<rparr>"
    using mid r by simp
  from a mid(2) post(2) b show ?thesis by blast
qed

lemma two_distinct_keys:
  assumes "distinct xs" and "set xs = {a, b}" and "a \<noteq> b"
  shows "xs = [a, b] \<or> xs = [b, a]"
proof -
  from assms have "length xs = 2" using distinct_card[of xs] by simp
  then obtain u v where xs: "xs = [u, v]"
    by (cases xs; cases "tl xs"; cases "tl (tl xs)") auto
  with assms show ?thesis by auto
qed

lemma count_filter_map:
  "length (filter (\<lambda>x. f x = y) xs) = count (mset (map f xs)) y"
  by (induction xs) auto

lemma loop_groups_two_labels:
  assumes m: "mset (map (\<lambda>l. line_label (line_at h l)) (loop_lines (loop_at h c))) =
              {#Some a, Some a, Some b, None#}"
    and ab: "a \<noteq> b" "a \<noteq> []" "b \<noteq> []"
  shows "(loop_groups h c = [(a, tags_with_label h c a), (b, tags_with_label h c b)]
          \<or> loop_groups h c = [(b, tags_with_label h c b), (a, tags_with_label h c a)])
         \<and> length (tags_with_label h c a) = 2 \<and> length (tags_with_label h c b) = 1"
proof -
  let ?ls = "loop_lines (loop_at h c)"
  let ?ps = "map (\<lambda>l. (line_label (line_at h l), tag (line_at h l))) ?ls"
  let ?G = "loop_groups h c"
  have G: "?G = fold add_to_groups ?ps []" by (simp add: loop_groups_def)
  have labels: "fst ` set ?ps = {Some a, Some b, None}"
  proof -
    have "fst ` set ?ps = set_mset (mset (map (\<lambda>l. line_label (line_at h l)) ?ls))"
      by (simp add: image_image)
    also have "\<dots> = {Some a, Some b, None}" unfolding m by auto
    finally show ?thesis .
  qed
  have tw: "map snd (filter (\<lambda>p. fst p = Some l) ?ps) = tags_with_label h c l" for l
    by (simp add: tags_with_label_def filter_map o_def)
  have mo: "map_of ?G l = (if l = a \<or> l = b then Some (tags_with_label h c l) else None)" for l
    unfolding G map_of_fold_add_to_groups labels tw using ab by (auto simp: vals_def)
  have d: "distinct (map fst ?G)" unfolding G by (rule distinct_fold_add_to_groups) simp
  have "set (map fst ?G) = {a, b}"
  proof -
    have "set (map fst ?G) = dom (map_of ?G)" by (simp add: dom_map_of_conv_image_fst)
    also have "\<dots> = {a, b}" by (auto simp: dom_def mo)
    finally show ?thesis .
  qed
  from two_distinct_keys[OF d this ab(1)] have keys: "map fst ?G = [a, b] \<or> map fst ?G = [b, a]" .
  have Geq: "?G = map (\<lambda>l. (l, the (map_of ?G l))) (map fst ?G)"
    using assoc_list_by_keys[OF d] by simp
  have shape: "?G = [(a, tags_with_label h c a), (b, tags_with_label h c b)]
          \<or> ?G = [(b, tags_with_label h c b), (a, tags_with_label h c a)]"
  proof (rule disjE[OF keys])
    assume k: "map fst ?G = [a, b]"
    from Geq have "?G = map (\<lambda>l. (l, the (map_of ?G l))) [a, b]" unfolding k .
    then show ?thesis by (simp add: mo)
  next
    assume k: "map fst ?G = [b, a]"
    from Geq have "?G = map (\<lambda>l. (l, the (map_of ?G l))) [b, a]" unfolding k .
    then show ?thesis by (simp add: mo)
  qed
  have la: "length (tags_with_label h c a) = 2"
    unfolding tags_with_label_def length_map count_filter_map m using ab by simp
  have lb: "length (tags_with_label h c b) = 1"
    unfolding tags_with_label_def length_map count_filter_map m using ab by simp
  from shape la lb show ?thesis by blast
qed

text \<open>
  Claim C4. When a CurveLoop that has not been refined yet, whose lines carry the labels
  A, A, B and None in any order, is refined, the new kernel calls are: first the calls
  \<open>mid\<close> of visiting every line (curve constraints only), then exactly two physical groups
  at curve dimension, one named A with the tags of the two A-labelled lines and one
  named B with the tag of the B-labelled line, then the calls \<open>post\<close> of the attached
  fields. Each name is given to the group just created: \<open>gA\<close> and \<open>gB\<close> are the kernel's
  answers to the two group-creation calls. No group is created for the unlabelled line,
  and the groups come only after the loop over the lines has ended.
\<close>

theorem curve_loop_label_groups:
  assumes "\<not> after_sync_initiated (loop_at h c)"
    and "mset (map (\<lambda>l. line_label (line_at h l)) (loop_lines (loop_at h c))) =
           {#Some ''A'', Some ''A'', Some ''B'', None#}"
  shows "\<exists>mid post gA gB.
           ((new_calls k (snd (CurveLoop_after_sync c (h, k))) =
               mid @ [AddPhysicalGroup 1 (tags_with_label h c ''A''), SetPhysicalName 1 gA ''A'',
                      AddPhysicalGroup 1 (tags_with_label h c ''B''), SetPhysicalName 1 gB ''B''] @ post
             \<and> gA = reply k (calls k @ mid) (AddPhysicalGroup 1 (tags_with_label h c ''A''))
             \<and> gB = reply k (calls k @ mid @ [AddPhysicalGroup 1 (tags_with_label h c ''A''),
                                               SetPhysicalName 1 gA ''A''])
                       (AddPhysicalGroup 1 (tags_with_label h c ''B'')))
            \<or> (new_calls k (snd (CurveLoop_after_sync c (h, k))) =
               mid @ [AddPhysicalGroup 1 (tags_with_label h c ''B''), SetPhysicalName 1 gB ''B'',
                      AddPhysicalGroup 1 (tags_with_label h c ''A''), SetPhysicalName 1 gA ''A''] @ post
             \<and> gB = reply k (calls k @ mid) (AddPhysicalGroup 1 (tags_with_label h c ''B''))
             \<and> gA = reply k (calls k @ mid @ [AddPhysicalGroup 1 (tags_with_label h c ''B''),
                                               SetPhysicalName 1 gB ''B''])
                       (AddPhysicalGroup 1 (tags_with_label h c ''A''))))
         \<and> length (tags_with_label h c ''A'') = 2 \<and> length (tags_with_label h c ''B'') = 1
         \<and> list_all is_curve_constraint mid \<and> list_all is_field_call post
         \<and> snd (snd (fold CurveLoop_after_sync_line (loop_lines (loop_at h c)) ([], h, k))) =
             k\<lparr>calls := calls k @ mid\<rparr>"
proof -
  let ?tA = "tags_with_label h c ''A''" and ?tB = "tags_with_label h c ''B''"
  from CurveLoop_after_sync_calls[OF assms(1), of k]
  obtain mid post where
    c: "calls (snd (CurveLoop_after_sync c (h, k))) =
          calls k @ mid @ group_calls (reply k) (calls k @ mid) (loop_groups h c) @ post"
    and m: "list_all is_curve_constraint mid" and p: "list_all is_field_call post"
    and f: "snd (snd (fold CurveLoop_after_sync_line (loop_lines (loop_at h c)) ([], h, k))) =
             k\<lparr>calls := calls k @ mid\<rparr>"
    by blast
  have n: "new_calls k (snd (CurveLoop_after_sync c (h, k))) =
      mid @ group_calls (reply k) (calls k @ mid) (loop_groups h c) @ post"
    using c by (simp add: new_calls_def)
  from loop_groups_two_labels[OF assms(2)]
  have g: "loop_groups h c = [(''A'', ?tA), (''B'', ?tB)] \<or> loop_groups h c = [(''B'', ?tB), (''A'', ?tA)]"
    and l: "length ?tA = 2" "length ?tB = 1"
    by simp_all
  from g show ?thesis
  proof
    assume e: "loop_groups h c = [(''A'', ?tA), (''B'', ?tB)]"
    define gA where "gA = reply k (calls k @ mid) (AddPhysicalGroup 1 ?tA)"
    define gB where "gB = reply k (calls k @ mid @ [AddPhysicalGroup 1 ?tA, SetPhysicalName 1 gA ''A''])
                            (AddPhysicalGroup 1 ?tB)"
    have "new_calls k (snd (CurveLoop_after_sync c (h, k))) =
        mid @ [AddPhysicalGroup 1 ?tA, SetPhysicalName 1 gA ''A'',
               AddPhysicalGroup 1 ?tB, SetPhysicalName 1 gB ''B''] @ post"
      unfolding n e gA_def gB_def by simp
    with l m p f gA_def gB_def show ?thesis by blast
  next
    assume e: "loop_groups h c = [(''B'', ?tB), (''A'', ?tA)]"
    define gB where "gB = reply k (calls k @ mid) (AddPhysicalGroup 1 ?tB)"
    define gA where "gA = reply k (calls k @ mid @ [AddPhysicalGroup 1 ?tB, SetPhysicalName 1 gB ''B''])
                            (AddPhysicalGroup 1 ?tA)"
    have "new_calls k (snd (CurveLoop_after_sync c (h, k))) =
        mid @ [AddPhysicalGroup 1 ?tB, SetPhysicalName 1 gB ''B'',
               AddPhysicalGroup 1 ?tA, SetPhysicalName 1 gA ''A''] @ post"
      unfolding n e gA_def gB_def by simp
    with l m p f gA_def gB_def show ?thesis by blast
  qed
qed

theorem curve_loop_label_groups_witness:
  "new_calls (snd (CurveLoop_before_sync 4 (abn_heap, counting_kernel)))
     (snd (CurveLoop_after_sync 4 (CurveLoop_before_sync 4 (abn_heap, counting_kernel)))) =
   [AddPhysicalGroup 1 [Some 3, Some 8], SetPhysicalName 1 10 ''A'',
    AddPhysicalGroup 1 [Some 7], SetPhysicalName 1 12 ''B'']
   \<and> reply counting_kernel (calls (snd (CurveLoop_before_sync 4 (abn_heap, counting_kernel))))
        (AddPhysicalGroup 1 [Some 3, Some 8]) = 10
   \<and> reply counting_kernel
        (calls (snd (CurveLoop_before_sync 4 (abn_heap, counting_kernel)))
         @ [AddPhysicalGroup 1 [Some 3, Some 8], SetPhysicalName 1 10 ''A''])
        (AddPhysicalGroup 1 [Some 7]) = 12"
  using curve_loop_label_groups [of "fst (CurveLoop_before_sync 4 (abn_heap, counting_kernel))" 4
      "snd (CurveLoop_before_sync 4 (abn_heap, counting_kernel))"]
  by (simp add: abn_heap_def run_defs new_calls_def)

subsection \<open>\<^verbatim>\<open>get_points_and_lines\<close>\<close>

lemma ebind_Inr: "ebind m f = Inr y \<longleftrightarrow> (\<exists>x. m = Inr x \<and> f x = Inr y)"
  by (cases m) (simp_all add: ebind_def)

lemma ebind_Inr_simp [simp]: "ebind (Inr x) f = f x"
  by (simp add: ebind_def)

lemma index_Inr: "index xs i = Inr v \<longleftrightarrow> i < length xs \<and> v = xs ! i"
  by (auto simp: index_def)

lemma Point_new_Inr:
  assumes "Point_new c m lab h = Inr (p, h1)"
  shows "p = next_addr h" "next_addr h1 = Suc (next_addr h)" "line_at h1 = line_at h"
    "\<And>a. a \<noteq> next_addr h \<Longrightarrow> point_at h1 a = point_at h a"
    "mesh_size (point_at h1 (next_addr h)) = m"
  using assms by (auto simp: Point_new_def ebind_Inr index_Inr Let_def)

lemma Point_new_succeeds: "2 \<le> length c \<Longrightarrow> \<exists>r. Point_new c m lab h = Inr r"
  by (auto simp: Point_new_def index_def Let_def)

lemma Line_new_eq:
  assumes "Line_new s e lab tf h = (l, h2)"
  shows "l = next_addr h" "next_addr h2 = Suc (next_addr h)" "point_at h2 = point_at h"
    "\<And>a. a \<noteq> next_addr h \<Longrightarrow> line_at h2 a = line_at h a"
    "line_start (line_at h2 (next_addr h)) = s" "line_end (line_at h2 (next_addr h)) = e"
  using assms by (auto simp: Line_new_def Let_def)

lemma pick_One [simp]: "pick (One v) i = Inr v"
  by simp

text \<open>The first iteration.\<close>

lemma gpl_step_first:
  assumes "gpl_step coords labels cell_counts mesh_types mesh_coeffs 0
             \<lparr>gpl_mesh_size = ms0, gpl_points = [], gpl_lines = [], gpl_line_index = 0, gpl_heap = h\<rparr> = Inr st"
  shows "coords \<noteq> [] \<and> has_first ms0 \<and> gpl_inv (length coords) (first_mesh_size ms0) 1 st"
proof -
  have ne: "coords \<noteq> []"
    using assms by (auto simp: gpl_step_def ebind_Inr index_Inr split: if_splits)
  from assms ne obtain m c p h1 where
    m: "pick ms0 0 = Inr m" and c: "index coords 0 = Inr c"
    and p: "Point_new c m None h = Inr (p, h1)"
    and st: "st = \<lparr>gpl_mesh_size = One m, gpl_points = [p], gpl_lines = [], gpl_line_index = 0, gpl_heap = h1\<rparr>"
    by (auto simp: gpl_step_def ebind_Inr split: if_splits)
  have m0: "has_first ms0 \<and> m = first_mesh_size ms0"
    using m by (cases ms0) (auto simp: index_Inr)
  from ne have "Suc 0 \<le> length coords" by (cases coords) simp_all
  then show ?thesis
    using ne m0 Point_new_Inr[OF p] by (simp add: st gpl_inv_def min_def)
qed


text \<open>A later iteration that creates a point and a line.\<close>

lemma gpl_step_middle:
  assumes inv: "gpl_inv n m0 j st" and n: "n = length coords" and j: "1 \<le> j" "j < n"
    and step: "gpl_step coords labels cell_counts mesh_types mesh_coeffs j st = Inr st'"
  shows "gpl_inv n m0 (Suc j) st'"
proof -
  let ?h = "gpl_heap st"
  let ?ps = "gpl_points st"
  have ms: "gpl_mesh_size st = One m0" and lp: "length ?ps = j" and ll: "length (gpl_lines st) = j - 1"
    and li: "gpl_line_index st = j - 1"
    using inv j by (simp_all add: gpl_inv_def)
  from step ms j n obtain c p h1 label tf start where
    p: "Point_new c m0 None ?h = Inr (p, h1)"
    and start: "index (?ps @ [p]) (j - 1) = Inr start"
    and st0: "st' = \<lparr>gpl_mesh_size = One m0, gpl_points = ?ps @ [p],
                     gpl_lines = gpl_lines st @ [fst (Line_new start p label tf h1)],
                     gpl_line_index = gpl_line_index st + 1,
                     gpl_heap = snd (Line_new start p label tf h1)\<rparr>"
    by (auto simp: gpl_step_def ebind_Inr split_beta Let_def split: if_splits)
  obtain line h2 where line: "Line_new start p label tf h1 = (line, h2)"
    by (cases "Line_new start p label tf h1")
  have st': "st' = \<lparr>gpl_mesh_size = One m0, gpl_points = ?ps @ [p],
                     gpl_lines = gpl_lines st @ [line],
                     gpl_line_index = gpl_line_index st + 1, gpl_heap = h2\<rparr>"
    using st0 line by simp
  note P = Point_new_Inr[OF p]
  note L = Line_new_eq[OF line]
  have s: "start = ?ps ! (j - 1)"
    using start lp j by (auto simp: index_Inr nth_append)
  have old: "\<forall>a \<in> set ?ps \<union> set (gpl_lines st). a < next_addr ?h"
    using inv by (simp add: gpl_inv_def)
  have pts: "point_at h2 a = point_at ?h a" if "a < next_addr ?h" for a
    using that P L by simp
  have lns: "line_at h2 a = line_at ?h a" if "a < next_addr ?h" for a
    using that P L by simp
  have oldp: "a < next_addr ?h" if "a \<in> set ?ps" for a using old that by simp
  have oldl: "a < next_addr ?h" if "a \<in> set (gpl_lines st)" for a using old that by simp
  have fp: "p \<notin> set ?ps" using oldp[of p] P(1) by auto
  have fl: "line \<notin> set (gpl_lines st)" using oldl[of line] L(1) P(2) by auto
  have 1: "distinct (?ps @ [p])" "distinct (gpl_lines st @ [line])"
    using inv fp fl by (simp_all add: gpl_inv_def)
  have nx: "next_addr h2 = Suc (Suc (next_addr ?h))" using P(2) L(2) by simp
  have 2: "\<forall>a \<in> set (?ps @ [p]) \<union> set (gpl_lines st @ [line]). a < next_addr h2"
  proof
    fix a assume "a \<in> set (?ps @ [p]) \<union> set (gpl_lines st @ [line])"
    then consider "a \<in> set ?ps" | "a = p" | "a \<in> set (gpl_lines st)" | "a = line" by auto
    then show "a < next_addr h2"
    proof cases
      case 1 then show ?thesis using oldp[of a] nx by simp
    next
      case 2 then show ?thesis using P(1) nx by simp
    next
      case 3 then show ?thesis using oldl[of a] nx by simp
    next
      case 4 then show ?thesis using L(1) P(2) nx by simp
    qed
  qed
  have 3: "\<forall>q \<in> set (?ps @ [p]). mesh_size (point_at h2 q) = m0"
  proof
    fix q assume "q \<in> set (?ps @ [p])"
    then consider "q \<in> set ?ps" | "q = p" by auto
    then show "mesh_size (point_at h2 q) = m0"
    proof cases
      case 1
      then have "mesh_size (point_at ?h q) = m0" using inv by (simp add: gpl_inv_def)
      then show ?thesis using pts[OF oldp[OF 1]] by simp
    next
      case 2 then show ?thesis using P(1,5) L(3) by simp
    qed
  qed
  have 4: "line_start (line_at h2 ((gpl_lines st @ [line]) ! i)) = (?ps @ [p]) ! i
         \<and> line_end (line_at h2 ((gpl_lines st @ [line]) ! i)) = (?ps @ [p]) ! (Suc i mod n)"
    if i: "i < j" for i
  proof (cases "i < j - 1")
    case True
    then have a: "(gpl_lines st @ [line]) ! i = gpl_lines st ! i" using ll by (auto simp: nth_append)
    have b: "gpl_lines st ! i < next_addr ?h" using old True ll by simp
    have c: "Suc i mod n = Suc i" using True j by simp
    have d: "(?ps @ [p]) ! i = ?ps ! i" "(?ps @ [p]) ! Suc i = ?ps ! Suc i"
      using True lp by (auto simp: nth_append)
    from inv True have "line_start (line_at ?h (gpl_lines st ! i)) = ?ps ! i
         \<and> line_end (line_at ?h (gpl_lines st ! i)) = ?ps ! (Suc i mod n)"
      by (simp add: gpl_inv_def)
    then show ?thesis by (simp add: a lns[OF b] c d)
  next
    case False
    with i have e: "i = j - 1" by simp
    have a: "(gpl_lines st @ [line]) ! i = line" using e ll by (auto simp: nth_append)
    have c: "Suc i mod n = j" using e j by simp
    have d: "(?ps @ [p]) ! i = ?ps ! (j - 1)" "(?ps @ [p]) ! j = p"
      using e lp j by (auto simp: nth_append)
    have ls: "line_start (line_at h2 line) = ?ps ! (j - 1)" "line_end (line_at h2 line) = p"
      using L(1,5,6) s by simp_all
    show ?thesis unfolding a c d by (rule conjI[OF ls])
  qed
  show ?thesis
    unfolding gpl_inv_def st' using 1 2 3 4 lp ll li j by (simp add: min_def)
qed


text \<open>The last iteration, which closes the cycle with the first point.\<close>

lemma gpl_step_last:
  assumes inv: "gpl_inv n m0 n st" and n: "n = length coords" "1 \<le> n"
    and step: "gpl_step coords labels cell_counts mesh_types mesh_coeffs n st = Inr st'"
  shows "gpl_inv n m0 (Suc n) st'"
proof -
  let ?h = "gpl_heap st"
  let ?ps = "gpl_points st"
  have ms: "gpl_mesh_size st = One m0" and lp: "length ?ps = n" and ll: "length (gpl_lines st) = n - 1"
    and li: "gpl_line_index st = n - 1"
    using inv by (simp_all add: gpl_inv_def)
  from step ms n obtain label tf start where
    start: "index ?ps (n - 1) = Inr start"
    and st0: "st' = \<lparr>gpl_mesh_size = One m0, gpl_points = ?ps,
                     gpl_lines = gpl_lines st @ [fst (Line_new start (?ps ! 0) label tf ?h)],
                     gpl_line_index = gpl_line_index st + 1,
                     gpl_heap = snd (Line_new start (?ps ! 0) label tf ?h)\<rparr>"
    by (auto simp: gpl_step_def ebind_Inr index_Inr split_beta Let_def split: if_splits)
  obtain line h2 where line: "Line_new start (?ps ! 0) label tf ?h = (line, h2)"
    by (cases "Line_new start (?ps ! 0) label tf ?h")
  have st': "st' = \<lparr>gpl_mesh_size = One m0, gpl_points = ?ps,
                     gpl_lines = gpl_lines st @ [line],
                     gpl_line_index = gpl_line_index st + 1, gpl_heap = h2\<rparr>"
    using st0 line by simp
  note L = Line_new_eq[OF line]
  have s: "start = ?ps ! (n - 1)" using start by (simp add: index_Inr)
  have old: "\<forall>a \<in> set ?ps \<union> set (gpl_lines st). a < next_addr ?h"
    using inv by (simp add: gpl_inv_def)
  have oldp: "a < next_addr ?h" if "a \<in> set ?ps" for a using old that by simp
  have oldl: "a < next_addr ?h" if "a \<in> set (gpl_lines st)" for a using old that by simp
  have lns: "line_at h2 a = line_at ?h a" if "a < next_addr ?h" for a
    using that L by simp
  have fl: "line \<notin> set (gpl_lines st)" using oldl[of line] L(1) by auto
  have 1: "distinct ?ps" "distinct (gpl_lines st @ [line])"
    using inv fl by (simp_all add: gpl_inv_def)
  have 2: "\<forall>a \<in> set ?ps \<union> set (gpl_lines st @ [line]). a < next_addr h2"
  proof
    fix a assume "a \<in> set ?ps \<union> set (gpl_lines st @ [line])"
    then consider "a \<in> set ?ps" | "a \<in> set (gpl_lines st)" | "a = line" by auto
    then show "a < next_addr h2"
    proof cases
      case 1 then show ?thesis using oldp[of a] L(2) by simp
    next
      case 2 then show ?thesis using oldl[of a] L(2) by simp
    next
      case 3 then show ?thesis using L(1,2) by simp
    qed
  qed
  have 3: "\<forall>q \<in> set ?ps. mesh_size (point_at h2 q) = m0"
    using inv L(3) by (simp add: gpl_inv_def)
  have 4: "line_start (line_at h2 ((gpl_lines st @ [line]) ! i)) = ?ps ! i
         \<and> line_end (line_at h2 ((gpl_lines st @ [line]) ! i)) = ?ps ! (Suc i mod n)"
    if i: "i < n" for i
  proof (cases "i < n - 1")
    case True
    then have a: "(gpl_lines st @ [line]) ! i = gpl_lines st ! i" using ll by (auto simp: nth_append)
    have b: "gpl_lines st ! i < next_addr ?h" using oldl True ll by simp
    from inv True have "line_start (line_at ?h (gpl_lines st ! i)) = ?ps ! i
         \<and> line_end (line_at ?h (gpl_lines st ! i)) = ?ps ! (Suc i mod n)"
      by (simp add: gpl_inv_def)
    then show ?thesis by (simp add: a lns[OF b])
  next
    case False
    with i have e: "i = n - 1" by simp
    have a: "(gpl_lines st @ [line]) ! i = line" using e ll by (auto simp: nth_append)
    have "Suc i = n" using e n by simp
    then have c: "Suc i mod n = 0" by simp
    have ls: "line_start (line_at h2 line) = ?ps ! i" "line_end (line_at h2 line) = ?ps ! 0"
      using L(1,5,6) s e by simp_all
    show ?thesis unfolding a c by (rule conjI[OF ls])
  qed
  show ?thesis
    unfolding gpl_inv_def st' using 1 2 3 4 lp ll li n by (simp add: min_def)
qed

lemma gpl_step_inv:
  assumes "gpl_inv n m0 j st" and "n = length coords" and "1 \<le> j" and "j \<le> n"
    and "gpl_step coords labels cell_counts mesh_types mesh_coeffs j st = Inr st'"
  shows "gpl_inv n m0 (Suc j) st'"
proof (cases "j < n")
  case True
  with assms show ?thesis by (intro gpl_step_middle[where st = st and coords = coords]) simp_all
next
  case False
  with assms have jn: "j = n" by simp
  have "gpl_inv n m0 (Suc n) st'"
    using assms(1,3,5) by (intro gpl_step_last[OF _ assms(2)]) (simp_all add: jn[symmetric])
  then show ?thesis by (simp add: jn)
qed

lemma gpl_loop_inv:
  assumes "n = length coords"
  shows "gpl_inv n m0 j st \<Longrightarrow> 1 \<le> j \<Longrightarrow> j \<le> Suc n \<Longrightarrow>
         gpl_loop coords labels cell_counts mesh_types mesh_coeffs [j ..< Suc n] st = Inr st' \<Longrightarrow>
         gpl_inv n m0 (Suc n) st'"
proof (induction "Suc n - j" arbitrary: j st)
  case 0
  then have "j = Suc n" by simp
  with 0 show ?case by simp
next
  case (Suc d)
  then have j: "j \<le> n" by simp
  then have u: "[j ..< Suc n] = j # [Suc j ..< Suc n]" by (simp add: upt_conv_Cons)
  from Suc.prems(4) obtain st1 where
    s1: "gpl_step coords labels cell_counts mesh_types mesh_coeffs j st = Inr st1"
    and r: "gpl_loop coords labels cell_counts mesh_types mesh_coeffs [Suc j ..< Suc n] st1 = Inr st'"
    unfolding u by (auto simp: ebind_Inr)
  have i1: "gpl_inv n m0 (Suc j) st1"
    using gpl_step_inv[OF Suc.prems(1) assms Suc.prems(2) j s1] .
  show ?case
    using Suc.hyps(1)[of "Suc j" st1] Suc.hyps(2) i1 j r by simp
qed

lemma opt_pick_succeeds:
  "long_enough n v \<Longrightarrow> i < n \<Longrightarrow> \<exists>r. opt_pick nz v i = Inr r"
  by (cases "(nz, v, i)" rule: opt_pick.cases) (auto simp: index_def)

lemma gpl_step_first_succeeds:
  assumes "coords \<noteq> []" and "has_first ms0" and "\<forall>c \<in> set coords. 2 \<le> length c"
  shows "\<exists>st. gpl_step coords labels cell_counts mesh_types mesh_coeffs 0
             \<lparr>gpl_mesh_size = ms0, gpl_points = [], gpl_lines = [], gpl_line_index = 0, gpl_heap = h\<rparr> = Inr st"
proof -
  obtain m where m: "pick ms0 0 = Inr m" using assms(2) by (cases ms0) (auto simp: index_def)
  have c: "index coords 0 = Inr (coords ! 0)" using assms(1) by (simp add: index_def)
  have "2 \<le> length (coords ! 0)" using assms(1,3) by simp
  from Point_new_succeeds[OF this] obtain p h1 where "Point_new (coords ! 0) m None h = Inr (p, h1)"
    by fastforce
  with m c assms(1) show ?thesis by (simp add: gpl_step_def)
qed

lemma gpl_step_succeeds:
  assumes inv: "gpl_inv n m0 j st" and n: "n = length coords" and j: "1 \<le> j" "j \<le> n"
    and rows: "\<forall>c \<in> set coords. 2 \<le> length c"
    and le: "long_enough n labels" "long_enough n cell_counts" "long_enough n mesh_types"
      "long_enough n mesh_coeffs"
  shows "\<exists>st'. gpl_step coords labels cell_counts mesh_types mesh_coeffs j st = Inr st'"
proof -
  have ms: "gpl_mesh_size st = One m0" and lp: "length (gpl_points st) = j"
    and li: "gpl_line_index st = j - 1"
    using inv j by (simp_all add: gpl_inv_def)
  have lt: "gpl_line_index st < n" using li j by simp
  obtain label where label: "opt_pick (\<lambda>s. s \<noteq> []) labels (gpl_line_index st) = Inr label"
    using opt_pick_succeeds[OF le(1) lt] by blast
  obtain cco where cco: "opt_pick (\<lambda>n. n \<noteq> 0) cell_counts (gpl_line_index st) = Inr cco"
    using opt_pick_succeeds[OF le(2) lt] by blast
  obtain mto where mto: "opt_pick (\<lambda>s. s \<noteq> []) mesh_types (gpl_line_index st) = Inr mto"
    using opt_pick_succeeds[OF le(3) lt] by blast
  obtain mco where mco: "opt_pick (\<lambda>r. r \<noteq> 0) mesh_coeffs (gpl_line_index st) = Inr mco"
    using opt_pick_succeeds[OF le(4) lt] by blast
  show ?thesis
  proof (cases "j = n")
    case True
    have "index (gpl_points st) 0 = Inr (gpl_points st ! 0)"
      "index (gpl_points st) (j - 1) = Inr (gpl_points st ! (j - 1))"
      using lp j by (simp_all add: index_def)
    with True n j ms label cco mto mco show ?thesis
      by (simp add: gpl_step_def split_beta Let_def split: option.splits)
  next
    case False
    with j have jn: "j < n" by simp
    have c: "index coords j = Inr (coords ! j)" using jn n by (simp add: index_def)
    have "2 \<le> length (coords ! j)" using jn n rows by simp
    from Point_new_succeeds[OF this] obtain p h1 where
      p: "Point_new (coords ! j) m0 None (gpl_heap st) = Inr (p, h1)"
      by fastforce
    have "index (gpl_points st @ [p]) (j - 1) = Inr ((gpl_points st @ [p]) ! (j - 1))"
      using lp j by (simp add: index_def)
    with False jn n j ms label cco mto mco c p show ?thesis
      by (simp add: gpl_step_def split_beta Let_def split: option.splits)
  qed
qed

lemma gpl_loop_succeeds:
  assumes n: "n = length coords"
    and rows: "\<forall>c \<in> set coords. 2 \<le> length c"
    and le: "long_enough n labels" "long_enough n cell_counts" "long_enough n mesh_types"
      "long_enough n mesh_coeffs"
  shows "gpl_inv n m0 j st \<Longrightarrow> 1 \<le> j \<Longrightarrow> j \<le> Suc n \<Longrightarrow>
         \<exists>st'. gpl_loop coords labels cell_counts mesh_types mesh_coeffs [j ..< Suc n] st = Inr st'"
proof (induction "Suc n - j" arbitrary: j st)
  case 0
  then have "j = Suc n" by simp
  then show ?case by simp
next
  case (Suc d)
  then have j: "j \<le> n" by simp
  then have u: "[j ..< Suc n] = j # [Suc j ..< Suc n]" by (simp add: upt_conv_Cons)
  from gpl_step_succeeds[OF Suc.prems(1) n Suc.prems(2) j rows le]
  obtain st1 where s1: "gpl_step coords labels cell_counts mesh_types mesh_coeffs j st = Inr st1"
    by blast
  have i1: "gpl_inv n m0 (Suc j) st1"
    using gpl_step_inv[OF Suc.prems(1) n Suc.prems(2) j s1] .
  have "d = Suc n - Suc j" using Suc.hyps(2) by simp
  from Suc.hyps(1)[OF this i1] j
  obtain st' where "gpl_loop coords labels cell_counts mesh_types mesh_coeffs [Suc j ..< Suc n] st1 = Inr st'"
    by (auto simp del: upt_Suc)
  then show ?case unfolding u by (simp add: s1)
qed

text \<open>Whenever the function returns, the state after the loop satisfies the invariant.\<close>

lemma get_points_and_lines_Inr:
  assumes "get_points_and_lines coords ms0 labels cell_counts mesh_types mesh_coeffs h = Inr (ps, ls, h')"
  shows "\<exists>st. gpl_inv (length coords) (first_mesh_size ms0) (Suc (length coords)) st
            \<and> gpl_points st = ps \<and> gpl_lines st = ls \<and> gpl_heap st = h'
            \<and> coords \<noteq> [] \<and> has_first ms0"
proof -
  let ?n = "length coords"
  let ?st0 = "\<lparr>gpl_mesh_size = ms0, gpl_points = [], gpl_lines = [], gpl_line_index = 0, gpl_heap = h\<rparr>"
  have u: "[0 ..< ?n + 1] = 0 # [1 ..< Suc ?n]"
    using upt_conv_Cons[of 0 "Suc ?n"] by (simp del: upt_Suc)
  from assms obtain st where
    l: "gpl_loop coords labels cell_counts mesh_types mesh_coeffs [0 ..< ?n + 1] ?st0 = Inr st"
    and r: "gpl_points st = ps" "gpl_lines st = ls" "gpl_heap st = h'"
    by (auto simp: get_points_and_lines_def ebind_Inr)
  from l obtain st1 where
    s1: "gpl_step coords labels cell_counts mesh_types mesh_coeffs 0 ?st0 = Inr st1"
    and l1: "gpl_loop coords labels cell_counts mesh_types mesh_coeffs [1 ..< Suc ?n] st1 = Inr st"
    unfolding u by (auto simp: ebind_Inr)
  from gpl_step_first[OF s1] have ne: "coords \<noteq> []" "has_first ms0"
    and i1: "gpl_inv ?n (first_mesh_size ms0) 1 st1" by simp_all
  have "gpl_inv ?n (first_mesh_size ms0) (Suc ?n) st"
    using gpl_loop_inv[OF refl i1 _ _ l1] by (simp del: upt_Suc)
  with r ne show ?thesis by blast
qed

lemma get_points_and_lines_succeeds:
  assumes "1 \<le> length coords" and "\<forall>c \<in> set coords. 2 \<le> length c" and "has_first ms0"
    and "long_enough (length coords) labels" "long_enough (length coords) cell_counts"
      "long_enough (length coords) mesh_types" "long_enough (length coords) mesh_coeffs"
  shows "\<exists>r. get_points_and_lines coords ms0 labels cell_counts mesh_types mesh_coeffs h = Inr r"
proof -
  let ?n = "length coords"
  let ?st0 = "\<lparr>gpl_mesh_size = ms0, gpl_points = [], gpl_lines = [], gpl_line_index = 0, gpl_heap = h\<rparr>"
  have u: "[0 ..< ?n + 1] = 0 # [1 ..< Suc ?n]"
    using upt_conv_Cons[of 0 "Suc ?n"] by (simp del: upt_Suc)
  have ne: "coords \<noteq> []" using assms(1) by auto
  from gpl_step_first_succeeds[OF ne assms(3,2)]
  obtain st1 where s1: "gpl_step coords labels cell_counts mesh_types mesh_coeffs 0 ?st0 = Inr st1"
    by blast
  from gpl_step_first[OF s1] have i1: "gpl_inv ?n (first_mesh_size ms0) 1 st1" by simp
  from gpl_loop_succeeds[OF refl assms(2,4,5,6,7) i1]
  obtain st where "gpl_loop coords labels cell_counts mesh_types mesh_coeffs [1 ..< Suc ?n] st1 = Inr st"
    by (auto simp del: upt_Suc)
  then show ?thesis
    unfolding get_points_and_lines_def u by (simp add: s1)
qed

text \<open>
  Claim C9. Take a coordinate array with \<open>n \<ge> 1\<close> rows. Whenever
  \<^verbatim>\<open>get_points_and_lines\<close> returns, it returns \<open>n\<close> distinct points and \<open>n\<close> distinct
  lines; line \<open>i\<close> runs from point \<open>i\<close> to point \<open>i + 1\<close> and the last line back to point
  0, so the end of each line is the start of the next one, cyclically. And it does return
  when no subscript is out of range: every row has the two components that \<^verbatim>\<open>Point\<close>
  reads, a list of mesh sizes is not empty, and a non-empty per-line list has an entry
  for each of the \<open>n\<close> lines.
\<close>

theorem get_points_and_lines_closed_cycle:
  assumes "1 \<le> length coords"
  shows "((\<forall>c \<in> set coords. 2 \<le> length c) \<and> has_first ms0
           \<and> long_enough (length coords) labels \<and> long_enough (length coords) cell_counts
           \<and> long_enough (length coords) mesh_types \<and> long_enough (length coords) mesh_coeffs
          \<longrightarrow> (\<exists>r. get_points_and_lines coords ms0 labels cell_counts mesh_types mesh_coeffs h = Inr r))
       \<and> (\<forall>ps ls h'.
            get_points_and_lines coords ms0 labels cell_counts mesh_types mesh_coeffs h = Inr (ps, ls, h')
            \<longrightarrow> length ps = length coords \<and> length ls = length coords
              \<and> distinct ps \<and> distinct ls
              \<and> (\<forall>i < length coords.
                    line_start (line_at h' (ls ! i)) = ps ! i
                  \<and> line_end (line_at h' (ls ! i)) = ps ! (Suc i mod length coords))
              \<and> (\<forall>i < length coords.
                    line_end (line_at h' (ls ! i)) =
                    line_start (line_at h' (ls ! (Suc i mod length coords)))))"
proof (intro conjI allI impI)
  assume "(\<forall>c \<in> set coords. 2 \<le> length c) \<and> has_first ms0
           \<and> long_enough (length coords) labels \<and> long_enough (length coords) cell_counts
           \<and> long_enough (length coords) mesh_types \<and> long_enough (length coords) mesh_coeffs"
  then show "\<exists>r. get_points_and_lines coords ms0 labels cell_counts mesh_types mesh_coeffs h = Inr r"
    using get_points_and_lines_succeeds[OF assms, of ms0 labels cell_counts mesh_types mesh_coeffs h]
    by blast
next
  fix ps ls h'
  let ?n = "length coords"
  assume r: "get_points_and_lines coords ms0 labels cell_counts mesh_types mesh_coeffs h = Inr (ps, ls, h')"
  from get_points_and_lines_Inr[OF r] obtain st where
    inv: "gpl_inv ?n (first_mesh_size ms0) (Suc ?n) st"
    and st: "gpl_points st = ps" "gpl_lines st = ls" "gpl_heap st = h'"
    by blast
  show "length ps = ?n" "length ls = ?n" "distinct ps" "distinct ls"
    using inv st by (auto simp: gpl_inv_def)
  have se: "line_start (line_at h' (ls ! i)) = ps ! i
          \<and> line_end (line_at h' (ls ! i)) = ps ! (Suc i mod ?n)" if "i < ?n" for i
    using inv st that by (auto simp: gpl_inv_def)
  {
    fix i assume i: "i < ?n"
    from se[OF i] show "line_start (line_at h' (ls ! i)) = ps ! i" by simp
    from se[OF i] show "line_end (line_at h' (ls ! i)) = ps ! (Suc i mod ?n)" by simp
  }
  {
    fix i assume i: "i < ?n"
    have "0 < ?n" using i by (cases coords) simp_all
    then have "Suc i mod ?n < ?n" by (rule mod_less_divisor)
    from se[OF this] se[OF i]
    show "line_end (line_at h' (ls ! i)) = line_start (line_at h' (ls ! (Suc i mod ?n)))" by simp
  }
qed

theorem get_points_and_lines_closed_cycle_witness:
  "\<exists>ps ls h'.
     get_points_and_lines [[0, 0], [1, 0], [1, 1]] (One 1) None None None None blank_heap = Inr (ps, ls, h')
   \<and> length ps = 3 \<and> length ls = 3 \<and> distinct ps \<and> distinct ls
   \<and> (\<forall>i < 3. line_start (line_at h' (ls ! i)) = ps ! i
              \<and> line_end (line_at h' (ls ! i)) = ps ! (Suc i mod 3))
   \<and> (\<forall>i < 3. line_end (line_at h' (ls ! i)) = line_start (line_at h' (ls ! (Suc i mod 3))))"
proof -
  let ?C = "[[0, 0], [1, 0], [1, 1]] :: real list list"
  have n: "length ?C = 3" by simp
  have h: "1 \<le> length ?C" by simp
  note t = get_points_and_lines_closed_cycle [OF h, of "One 1" None None None None blank_heap]
  from t obtain r where "get_points_and_lines ?C (One 1) None None None None blank_heap = Inr r"
    by auto
  then obtain ps ls h' where
    r: "get_points_and_lines ?C (One 1) None None None None blank_heap = Inr (ps, ls, h')"
    by (metis prod_cases3)
  from t r show ?thesis unfolding n by blast
qed

text \<open>
  Claim C10. When \<^verbatim>\<open>get_points_and_lines\<close> is called with a list of mesh sizes, it
  returns whenever no subscript is out of range, and whenever it returns, the list is not
  empty, there is one distinct returned point for each of the (at least one) coordinate
  rows, and every returned point has been built with the list's first element as its
  mesh size, whatever the other entries are.
\<close>

theorem get_points_and_lines_mesh_size_list:
  "((1 \<le> length coords \<and> (\<forall>c \<in> set coords. 2 \<le> length c) \<and> ms \<noteq> []
      \<and> long_enough (length coords) labels \<and> long_enough (length coords) cell_counts
      \<and> long_enough (length coords) mesh_types \<and> long_enough (length coords) mesh_coeffs)
     \<longrightarrow> (\<exists>r. get_points_and_lines coords (Many ms) labels cell_counts mesh_types mesh_coeffs h = Inr r))
   \<and> (\<forall>ps ls h'.
        get_points_and_lines coords (Many ms) labels cell_counts mesh_types mesh_coeffs h = Inr (ps, ls, h')
        \<longrightarrow> ms \<noteq> [] \<and> coords \<noteq> [] \<and> length ps = length coords \<and> distinct ps
          \<and> (\<forall>p \<in> set ps. mesh_size (point_at h' p) = ms ! 0))"
proof (intro conjI allI impI ballI)
  assume a: "1 \<le> length coords \<and> (\<forall>c \<in> set coords. 2 \<le> length c) \<and> ms \<noteq> []
      \<and> long_enough (length coords) labels \<and> long_enough (length coords) cell_counts
      \<and> long_enough (length coords) mesh_types \<and> long_enough (length coords) mesh_coeffs"
  then have "has_first (Many ms)" by simp
  with a show "\<exists>r. get_points_and_lines coords (Many ms) labels cell_counts mesh_types mesh_coeffs h = Inr r"
    using get_points_and_lines_succeeds[of coords "Many ms" labels cell_counts mesh_types mesh_coeffs h]
    by blast
next
  fix ps ls h'
  assume r: "get_points_and_lines coords (Many ms) labels cell_counts mesh_types mesh_coeffs h = Inr (ps, ls, h')"
  from get_points_and_lines_Inr[OF r] obtain st where
    inv: "gpl_inv (length coords) (first_mesh_size (Many ms)) (Suc (length coords)) st"
    and st: "gpl_points st = ps" "gpl_heap st = h'" and hf: "has_first (Many ms)"
    and ne: "coords \<noteq> []"
    by blast
  show "ms \<noteq> []" using hf by simp
  show "coords \<noteq> []" by (rule ne)
  show "length ps = length coords" "distinct ps" using inv st by (auto simp: gpl_inv_def)
  fix p assume "p \<in> set ps"
  then show "mesh_size (point_at h' p) = ms ! 0" using inv st by (auto simp: gpl_inv_def)
qed

theorem get_points_and_lines_mesh_size_list_witness:
  "\<exists>h'.
     get_points_and_lines [[0, 0], [1, 0], [1, 1]] (Many [1, 2, 3]) None None None None blank_heap =
       Inr ([0, 1, 3], [2, 4, 5], h')
   \<and> mesh_size (point_at h' 0) = 1 \<and> mesh_size (point_at h' 1) = 1 \<and> mesh_size (point_at h' 3) = 1"
proof -
  let ?C = "[[0, 0], [1, 0], [1, 1]] :: real list list"
  note t = get_points_and_lines_mesh_size_list [of ?C "[1, 2, 3]" None None None None blank_heap]
  from t have "\<exists>r. get_points_and_lines ?C (Many [1, 2, 3]) None None None None blank_heap = Inr r"
    by simp
  have "\<exists>h'. get_points_and_lines ?C (Many [1, 2, 3]) None None None None blank_heap
          = Inr ([0, 1, 3], [2, 4, 5], h')"
    by (simp add: get_points_and_lines_def gpl_step_def Point_new_def Line_new_def index_def
        blank_heap_def Let_def upt_rec numeral_2_eq_2 numeral_3_eq_3)
  then obtain h' where
    r: "get_points_and_lines ?C (Many [1, 2, 3]) None None None None blank_heap
          = Inr ([0, 1, 3], [2, 4, 5], h')"
    by blast
  from t r have "\<forall>p \<in> set [0, 1, 3]. mesh_size (point_at h' p) = [1, 2, 3] ! 0" by blast
  then have "mesh_size (point_at h' 0) = 1 \<and> mesh_size (point_at h' 1) = 1
             \<and> mesh_size (point_at h' 3) = 1"
    by simp
  with r show ?thesis by blast
qed

subsection \<open>Construction: one creation call, then no-ops\<close>

lemma flag_already_set:
  "before_sync_initiated ob \<Longrightarrow> MeshTransaction_before_sync ob = ob"
  by (simp add: MeshTransaction_before_sync_def)

lemma upd_same:
  "f (point_at h a) = point_at h a \<Longrightarrow> upd_point a f h = h"
  "g (line_at h a) = line_at h a \<Longrightarrow> upd_line a g h = h"
  "g1 (loop_at h a) = loop_at h a \<Longrightarrow> upd_loop a g1 h = h"
  "g2 (surface_at h a) = surface_at h a \<Longrightarrow> upd_surface a g2 h = h"
  "g3 (field_at h a) = field_at h a \<Longrightarrow> upd_field a g3 h = h"
  by (simp_all add: upd_point_def upd_line_def upd_loop_def upd_surface_def upd_field_def)

lemma Point_before_sync_done:
  "before_sync_initiated (point_at h a) \<Longrightarrow> Point_before_sync a (h, k) = (h, k)"
  by (simp add: Point_before_sync.simps Let_def upd_same flag_already_set)

lemma Line_before_sync_done:
  "before_sync_initiated (line_at h a) \<Longrightarrow> Line_before_sync a (h, k) = (h, k)"
  by (simp add: Line_before_sync.simps Let_def upd_same flag_already_set)

lemma CurveLoop_before_sync_done:
  "before_sync_initiated (loop_at h a) \<Longrightarrow> CurveLoop_before_sync a (h, k) = (h, k)"
  by (simp add: CurveLoop_before_sync.simps Let_def upd_same flag_already_set)

lemma PlaneSurface_before_sync_done:
  "before_sync_initiated (surface_at h a) \<Longrightarrow> PlaneSurface_before_sync a (h, k) = (h, k)"
  by (simp add: PlaneSurface_before_sync.simps Let_def upd_same flag_already_set)

lemma Point_before_sync_flag:
  "before_sync_initiated (point_at (fst (Point_before_sync a s)) a)"
  by (cases s) (simp add: Point_before_sync.simps Let_def split_beta store_defs)

lemma Line_before_sync_flag:
  "before_sync_initiated (line_at (fst (Line_before_sync a s)) a)"
  by (cases s) (simp add: Line_before_sync.simps Let_def split_beta store_defs)

lemma CurveLoop_before_sync_flag:
  "before_sync_initiated (loop_at (fst (CurveLoop_before_sync a s)) a)"
  by (cases s) (simp add: CurveLoop_before_sync.simps Let_def split_beta store_defs)

lemma PlaneSurface_before_sync_flag:
  "before_sync_initiated (surface_at (fst (PlaneSurface_before_sync a s)) a)"
  by (cases s) (simp add: PlaneSurface_before_sync.simps Let_def split_beta store_defs)

lemma extendsI: "reply k' = reply k \<Longrightarrow> calls k' = calls k @ d \<Longrightarrow> list_all P d \<Longrightarrow> extends P k k'"
  by (auto simp: extends_def)

lemma extendsE:
  assumes "extends P k k'"
  obtains d where "calls k' = calls k @ d" "list_all P d" "reply k' = reply k"
  using assms by (auto simp: extends_def)

lemma Point_before_sync_fresh:
  assumes "\<not> before_sync_initiated (point_at h a)"
  shows "\<exists>c. calls (snd (Point_before_sync a (h, k))) = calls k @ [c] \<and> is_add_point c
           \<and> reply (snd (Point_before_sync a (h, k))) = reply k
           \<and> tag (point_at (fst (Point_before_sync a (h, k))) a) = Some (reply k (calls k) c)"
  using assms
  by (simp add: Point_before_sync.simps Let_def split_beta store_defs kernel_defs)

lemma Point_before_sync_extends:
  "extends is_add_point (snd s) (snd (Point_before_sync a s))"
proof (cases s)
  case (Pair h k)
  show ?thesis
  proof (cases "before_sync_initiated (point_at h a)")
    case True
    then show ?thesis using Pair by (simp add: Point_before_sync_done extends_refl)
  next
    case False
    from Point_before_sync_fresh[OF False, of k] Pair show ?thesis
      by (auto intro!: extendsI)
  qed
qed

lemma Line_before_sync_fresh:
  assumes "\<not> before_sync_initiated (line_at h a)"
  shows "\<exists>d c. calls (snd (Line_before_sync a (h, k))) = calls k @ d @ [c]
           \<and> is_add_line c \<and> list_all is_add_point d
           \<and> reply (snd (Line_before_sync a (h, k))) = reply k
           \<and> tag (line_at (fst (Line_before_sync a (h, k))) a) = Some (reply k (calls k @ d) c)"
proof -
  obtain h1 k1 where s1: "Point_before_sync (line_start (line_at h a)) (h, k) = (h1, k1)"
    by (cases "Point_before_sync (line_start (line_at h a)) (h, k)")
  obtain h2 k2 where s2: "Point_before_sync (line_end (line_at h1 a)) (h1, k1) = (h2, k2)"
    by (cases "Point_before_sync (line_end (line_at h1 a)) (h1, k1)")
  have "extends is_add_point k k1" using Point_before_sync_extends[of "(h, k)" "line_start (line_at h a)"] s1 by simp
  moreover have "extends is_add_point k1 k2" using Point_before_sync_extends[of "(h1, k1)" "line_end (line_at h1 a)"] s2 by simp
  ultimately have "extends is_add_point k k2" by (rule extends_trans)
  then obtain d where d: "calls k2 = calls k @ d" "list_all is_add_point d" "reply k2 = reply k"
    by (rule extendsE)
  let ?c = "AddLine (tag (point_at h2 (line_start (line_at h2 a)))) (tag (point_at h2 (line_end (line_at h2 a))))"
  have "calls (snd (Line_before_sync a (h, k))) = calls k @ d @ [?c]
      \<and> reply (snd (Line_before_sync a (h, k))) = reply k
      \<and> tag (line_at (fst (Line_before_sync a (h, k))) a) = Some (reply k (calls k @ d) ?c)"
    using assms s1 s2 d
    by (simp add: Line_before_sync.simps Let_def store_defs kernel_defs)
  with d(2) show ?thesis by (intro exI[of _ d] exI[of _ ?c]) simp
qed

lemma Line_before_sync_extends:
  "extends is_point_or_line (snd s) (snd (Line_before_sync a s))"
proof (cases s)
  case (Pair h k)
  show ?thesis
  proof (cases "before_sync_initiated (line_at h a)")
    case True
    then show ?thesis using Pair by (simp add: Line_before_sync_done extends_refl)
  next
    case False
    from Line_before_sync_fresh[OF False, of k] obtain d c where
      "calls (snd (Line_before_sync a (h, k))) = calls k @ d @ [c]" "is_add_line c"
      "list_all is_add_point d" "reply (snd (Line_before_sync a (h, k))) = reply k"
      by blast
    then show ?thesis using Pair
      by (intro extendsI[where d = "d @ [c]"]) (auto simp: is_point_or_line_def list_all_iff)
  qed
qed

lemma CurveLoop_before_sync_line_kernel:
  "snd (CurveLoop_before_sync_line c l s) = snd (Line_before_sync l s)"
  by (cases s) (simp add: CurveLoop_before_sync_line.simps split_beta)

lemma CurveLoop_before_sync_line_extends:
  "extends is_point_or_line (snd s) (snd (CurveLoop_before_sync_line c l s))"
  by (simp add: CurveLoop_before_sync_line_kernel Line_before_sync_extends)

lemma Field_before_sync_fold:
  "snd (fold (\<lambda>f. Field_before_sync f c) fs s) = snd s
   \<and> loop_at (fst (fold (\<lambda>f. Field_before_sync f c) fs s)) = loop_at (fst s)
   \<and> point_at (fst (fold (\<lambda>f. Field_before_sync f c) fs s)) = point_at (fst s)
   \<and> line_at (fst (fold (\<lambda>f. Field_before_sync f c) fs s)) = line_at (fst s)
   \<and> surface_at (fst (fold (\<lambda>f. Field_before_sync f c) fs s)) = surface_at (fst s)"
proof (induction fs arbitrary: s)
  case Nil
  show ?case by simp
next
  case (Cons f fs)
  obtain h k where s: "s = (h, k)" by (cases s)
  show ?case using Cons[of "Field_before_sync f c s"]
    by (simp add: s Field_before_sync.simps upd_field_def)
qed

lemma CurveLoop_before_sync_fresh:
  assumes "\<not> before_sync_initiated (loop_at h a)"
  shows "\<exists>d c. calls (snd (CurveLoop_before_sync a (h, k))) = calls k @ d @ [c]
           \<and> is_add_curve_loop c \<and> list_all is_point_or_line d
           \<and> reply (snd (CurveLoop_before_sync a (h, k))) = reply k
           \<and> tag (loop_at (fst (CurveLoop_before_sync a (h, k))) a) = Some (reply k (calls k @ d) c)"
proof -
  let ?ls = "loop_lines (loop_at h a)"
  obtain h1 k1 where s1: "fold (CurveLoop_before_sync_line a) ?ls (h, k) = (h1, k1)"
    by (cases "fold (CurveLoop_before_sync_line a) ?ls (h, k)")
  have "extends is_point_or_line (snd (h, k)) (snd (fold (CurveLoop_before_sync_line a) ?ls (h, k)))"
    by (rule extends_fold) (rule CurveLoop_before_sync_line_extends)
  then obtain d where d: "calls k1 = calls k @ d" "list_all is_point_or_line d" "reply k1 = reply k"
    using s1 by (auto elim: extendsE)
  let ?c = "AddCurveLoop (line_tags (loop_at h1 a))"
  let ?t = "reply k (calls k @ d) ?c"
  let ?k2 = "k1\<lparr>calls := calls k1 @ [?c]\<rparr>"
  let ?h2 = "upd_loop a (\<lambda>ob. ob\<lparr>tag := Some ?t\<rparr>) h1"
  let ?s3 = "fold (\<lambda>f. Field_before_sync f a) (loop_fields (loop_at ?h2 a)) (?h2, ?k2)"
  have r: "CurveLoop_before_sync a (h, k) = (upd_loop a MeshTransaction_before_sync (fst ?s3), snd ?s3)"
    using assms s1 d by (simp add: CurveLoop_before_sync.simps Let_def split_beta kernel_defs)
  note F = Field_before_sync_fold[of a "loop_fields (loop_at ?h2 a)" "(?h2, ?k2)"]
  have "calls (snd (CurveLoop_before_sync a (h, k))) = calls k @ d @ [?c]
      \<and> reply (snd (CurveLoop_before_sync a (h, k))) = reply k
      \<and> tag (loop_at (fst (CurveLoop_before_sync a (h, k))) a) = Some ?t"
    unfolding r using F d by (simp add: store_defs)
  with d(2) show ?thesis by (intro exI[of _ d] exI[of _ ?c]) simp
qed

lemma CurveLoop_before_sync_extends:
  "extends is_loop_construction (snd s) (snd (CurveLoop_before_sync a s))"
proof (cases s)
  case (Pair h k)
  show ?thesis
  proof (cases "before_sync_initiated (loop_at h a)")
    case True
    then show ?thesis using Pair by (simp add: CurveLoop_before_sync_done extends_refl)
  next
    case False
    from CurveLoop_before_sync_fresh[OF False, of k] obtain d c where
      "calls (snd (CurveLoop_before_sync a (h, k))) = calls k @ d @ [c]" "is_add_curve_loop c"
      "list_all is_point_or_line d" "reply (snd (CurveLoop_before_sync a (h, k))) = reply k"
      by blast
    then show ?thesis using Pair
      by (intro extendsI[where d = "d @ [c]"])
         (auto simp: is_point_or_line_def is_loop_construction_def list_all_iff)
  qed
qed

lemma PlaneSurface_before_sync_loop_state:
  "snd (PlaneSurface_before_sync_loop c ts) = CurveLoop_before_sync c (snd ts)"
  by (cases ts) (simp add: PlaneSurface_before_sync_loop.simps split_beta)

lemma PlaneSurface_before_sync_loop_fold:
  "snd (fold PlaneSurface_before_sync_loop cs ts) = fold CurveLoop_before_sync cs (snd ts)"
  by (induction cs arbitrary: ts) (simp_all add: PlaneSurface_before_sync_loop_state)

lemma PlaneSurface_before_sync_fresh:
  assumes "\<not> before_sync_initiated (surface_at h a)"
  shows "\<exists>d c. calls (snd (PlaneSurface_before_sync a (h, k))) = calls k @ d @ [c]
           \<and> is_add_plane_surface c \<and> list_all is_loop_construction d
           \<and> reply (snd (PlaneSurface_before_sync a (h, k))) = reply k
           \<and> tag (surface_at (fst (PlaneSurface_before_sync a (h, k))) a) = Some (reply k (calls k @ d) c)"
proof -
  let ?cs = "curve_loops (surface_at h a)"
  obtain ts h1 k1 where s1: "fold PlaneSurface_before_sync_loop ?cs ([], h, k) = (ts, h1, k1)"
    by (cases "fold PlaneSurface_before_sync_loop ?cs ([], h, k)")
  have f: "fold CurveLoop_before_sync ?cs (h, k) = (h1, k1)"
    using PlaneSurface_before_sync_loop_fold[of ?cs "([], h, k)"] s1 by simp
  have "extends is_loop_construction (snd (h, k)) (snd (fold CurveLoop_before_sync ?cs (h, k)))"
    by (rule extends_fold) (rule CurveLoop_before_sync_extends)
  then obtain d where d: "calls k1 = calls k @ d" "list_all is_loop_construction d" "reply k1 = reply k"
    using f by (auto elim: extendsE)
  let ?c = "AddPlaneSurface ts"
  have "calls (snd (PlaneSurface_before_sync a (h, k))) = calls k @ d @ [?c]
      \<and> reply (snd (PlaneSurface_before_sync a (h, k))) = reply k
      \<and> tag (surface_at (fst (PlaneSurface_before_sync a (h, k))) a) = Some (reply k (calls k @ d) ?c)"
    using assms s1 d
    by (simp add: PlaneSurface_before_sync.simps Let_def store_defs kernel_defs)
  with d(2) show ?thesis by (intro exI[of _ d] exI[of _ ?c]) simp
qed

lemma PlaneSurface_before_sync_extends:
  "extends is_phase1 (snd s) (snd (PlaneSurface_before_sync a s))"
proof (cases s)
  case (Pair h k)
  show ?thesis
  proof (cases "before_sync_initiated (surface_at h a)")
    case True
    then show ?thesis using Pair by (simp add: PlaneSurface_before_sync_done extends_refl)
  next
    case False
    from PlaneSurface_before_sync_fresh[OF False, of k] obtain d c where
      "calls (snd (PlaneSurface_before_sync a (h, k))) = calls k @ d @ [c]" "is_add_plane_surface c"
      "list_all is_loop_construction d" "reply (snd (PlaneSurface_before_sync a (h, k))) = reply k"
      by blast
    then show ?thesis using Pair
      by (intro extendsI[where d = "d @ [c]"])
         (auto simp: is_phase1_def is_loop_construction_def list_all_iff)
  qed
qed

lemma before_sync_all_replicate:
  assumes "before_sync r s = Inr s"
  shows "before_sync_all (replicate n r) s = Inr s"
  by (induction n) (simp_all add: assms)

lemma kinds_disjoint:
  "is_add_point x \<Longrightarrow> \<not> is_add_line x"
  "is_point_or_line x \<Longrightarrow> \<not> is_add_curve_loop x"
  "is_loop_construction x \<Longrightarrow> \<not> is_add_plane_surface x"
  by (cases x; simp add: is_point_or_line_def is_loop_construction_def)+

lemma construct_once:
  assumes run: "before_sync r (h, k) = Inr sa"
    and again: "before_sync r sa = Inr sa"
    and calls: "calls (snd sa) = calls k @ d @ [c]"
    and c: "creation_of r c" and d: "list_all (\<lambda>x. \<not> creation_of r x) d"
    and flag: "constructed (fst sa) r"
    and t: "tag_of (fst sa) r = Some (reply k (calls k @ d) c)"
    and N: "1 < N"
  shows "\<exists>h1 k1 d c.
           before_sync r (h, k) = Inr (h1, k1)
         \<and> before_sync_all (replicate N r) (h, k) = Inr (h1, k1)
         \<and> before_sync r (h1, k1) = Inr (h1, k1)
         \<and> new_calls k k1 = d @ [c] \<and> creation_of r c \<and> list_all (\<lambda>x. \<not> creation_of r x) d
         \<and> constructed h1 r \<and> tag_of h1 r = Some (reply k (calls k @ d) c)"
proof -
  obtain h1 k1 where sa: "sa = (h1, k1)" by (cases sa)
  obtain m where m: "N = Suc m" using N by (cases N) simp_all
  have "before_sync_all (replicate N r) (h, k) = Inr sa"
    unfolding m using run before_sync_all_replicate[OF again, of m] by simp
  moreover have "new_calls k k1 = d @ [c]" using calls sa by (simp add: new_calls_def)
  ultimately show ?thesis using run again c d flag t unfolding sa by fastforce
qed

text \<open>
  Claim C2. For every entity (a Point, a Line or TransfiniteLine, a CurveLoop, a
  PlaneSurface or TransfinitePlaneSurface) that has not been constructed yet, calling
  \<^verbatim>\<open>before_sync\<close> \<open>N > 1\<close> times leaves the store and the kernel exactly as one call does,
  and a further call changes nothing: the later calls are no-ops. The calls that reach
  the kernel end with the one creation call \<open>c\<close> of the entity, no other call \<open>d\<close> before
  it is of that kind, and the entity's tag is the kernel's answer to \<open>c\<close>.
\<close>

theorem construct_idempotent:
  assumes "is_entity r" and "\<not> constructed h r" and "1 < N"
  shows "\<exists>h1 k1 d c.
           before_sync r (h, k) = Inr (h1, k1)
         \<and> before_sync_all (replicate N r) (h, k) = Inr (h1, k1)
         \<and> before_sync r (h1, k1) = Inr (h1, k1)
         \<and> new_calls k k1 = d @ [c] \<and> creation_of r c \<and> list_all (\<lambda>x. \<not> creation_of r x) d
         \<and> constructed h1 r \<and> tag_of h1 r = Some (reply k (calls k @ d) c)"
proof (cases r)
  case (PointRef a)
  let ?s1 = "Point_before_sync a (h, k)"
  from assms(2) PointRef have fresh: "\<not> before_sync_initiated (point_at h a)" by simp
  from Point_before_sync_fresh[OF fresh, of k] obtain c where
    f: "calls (snd ?s1) = calls k @ [] @ [c]" "is_add_point c"
       "tag (point_at (fst ?s1) a) = Some (reply k (calls k @ []) c)"
    by auto
  have again: "before_sync r ?s1 = Inr ?s1"
    using Point_before_sync_done[OF Point_before_sync_flag[of a "(h, k)"], of "snd ?s1"] PointRef
    by simp
  show ?thesis
    by (rule construct_once[where sa = ?s1 and d = "[]" and c = c])
       (use PointRef f again assms(3) Point_before_sync_flag[of a "(h, k)"] in simp_all)
next
  case (LineRef a)
  let ?s1 = "Line_before_sync a (h, k)"
  from assms(2) LineRef have fresh: "\<not> before_sync_initiated (line_at h a)" by simp
  from Line_before_sync_fresh[OF fresh, of k] obtain d c where
    f: "calls (snd ?s1) = calls k @ d @ [c]" "is_add_line c" "list_all is_add_point d"
       "tag (line_at (fst ?s1) a) = Some (reply k (calls k @ d) c)"
    by auto
  have again: "before_sync r ?s1 = Inr ?s1"
    using Line_before_sync_done[OF Line_before_sync_flag[of a "(h, k)"], of "snd ?s1"] LineRef
    by simp
  have nd: "list_all (\<lambda>x. \<not> creation_of r x) d"
    using f(3) LineRef by (auto simp: list_all_iff kinds_disjoint)
  show ?thesis
    by (rule construct_once[where sa = ?s1 and d = d and c = c])
       (use LineRef f again nd assms(3) Line_before_sync_flag[of a "(h, k)"] in simp_all)
next
  case (CurveLoopRef a)
  let ?s1 = "CurveLoop_before_sync a (h, k)"
  from assms(2) CurveLoopRef have fresh: "\<not> before_sync_initiated (loop_at h a)" by simp
  from CurveLoop_before_sync_fresh[OF fresh, of k] obtain d c where
    f: "calls (snd ?s1) = calls k @ d @ [c]" "is_add_curve_loop c" "list_all is_point_or_line d"
       "tag (loop_at (fst ?s1) a) = Some (reply k (calls k @ d) c)"
    by auto
  have again: "before_sync r ?s1 = Inr ?s1"
    using CurveLoop_before_sync_done[OF CurveLoop_before_sync_flag[of a "(h, k)"], of "snd ?s1"]
      CurveLoopRef
    by simp
  have nd: "list_all (\<lambda>x. \<not> creation_of r x) d"
    using f(3) CurveLoopRef by (auto simp: list_all_iff kinds_disjoint)
  show ?thesis
    by (rule construct_once[where sa = ?s1 and d = d and c = c])
       (use CurveLoopRef f again nd assms(3) CurveLoop_before_sync_flag[of a "(h, k)"] in simp_all)
next
  case (PlaneSurfaceRef a)
  let ?s1 = "PlaneSurface_before_sync a (h, k)"
  from assms(2) PlaneSurfaceRef have fresh: "\<not> before_sync_initiated (surface_at h a)" by simp
  from PlaneSurface_before_sync_fresh[OF fresh, of k] obtain d c where
    f: "calls (snd ?s1) = calls k @ d @ [c]" "is_add_plane_surface c" "list_all is_loop_construction d"
       "tag (surface_at (fst ?s1) a) = Some (reply k (calls k @ d) c)"
    by auto
  have again: "before_sync r ?s1 = Inr ?s1"
    using PlaneSurface_before_sync_done[OF PlaneSurface_before_sync_flag[of a "(h, k)"], of "snd ?s1"]
      PlaneSurfaceRef
    by simp
  have nd: "list_all (\<lambda>x. \<not> creation_of r x) d"
    using f(3) PlaneSurfaceRef by (auto simp: list_all_iff kinds_disjoint)
  show ?thesis
    by (rule construct_once[where sa = ?s1 and d = d and c = c])
       (use PlaneSurfaceRef f again nd assms(3) PlaneSurface_before_sync_flag[of a "(h, k)"] in simp_all)
next
  case (FieldRef a)
  with assms(1) show ?thesis by simp
qed

theorem construct_idempotent_witness:
  "\<exists>h1 k1.
     before_sync (PlaneSurfaceRef 4) (tri_heap, counting_kernel) = Inr (h1, k1)
   \<and> before_sync_all (replicate 3 (PlaneSurfaceRef 4)) (tri_heap, counting_kernel) = Inr (h1, k1)
   \<and> length (filter is_add_plane_surface (calls k1)) = 1
   \<and> tag (surface_at h1 4) = Some 8"
proof -
  have h: "is_entity (PlaneSurfaceRef 4)" "\<not> constructed tri_heap (PlaneSurfaceRef 4)" "1 < (3::nat)"
    by (simp_all add: tri_heap_def demo_defs)
  from construct_idempotent[OF h, of counting_kernel] obtain h1 k1 where
    r: "before_sync (PlaneSurfaceRef 4) (tri_heap, counting_kernel) = Inr (h1, k1)"
       "before_sync_all (replicate 3 (PlaneSurfaceRef 4)) (tri_heap, counting_kernel) = Inr (h1, k1)"
    by blast
  from r(1) have e: "(h1, k1) = PlaneSurface_before_sync 4 (tri_heap, counting_kernel)" by simp
  have "calls k1 = [AddPoint 0 0 0 0, AddPoint 0 0 0 0, AddLine (Some 1) (Some 2), AddPoint 0 0 0 0,
      AddLine (Some 2) (Some 4), AddLine (Some 4) (Some 1), AddCurveLoop [Some 3, Some 5, Some 6],
      AddPlaneSurface [Some 7]] \<and> tag (surface_at h1 4) = Some 8"
    using arg_cong[OF e, of snd] arg_cong[OF e, of fst] by (simp add: tri_heap_def run_defs)
  with r show ?thesis by auto
qed

lemma flags_mono_refl: "flags_mono h h"
  by (simp add: flags_mono_def)

lemma flags_mono_trans: "flags_mono h h1 \<Longrightarrow> flags_mono h1 h2 \<Longrightarrow> flags_mono h h2"
  by (simp add: flags_mono_def)

lemma flags_mono_upd:
  "keeps_flags f \<Longrightarrow> flags_mono h (upd_point a f h)"
  "keeps_flags g \<Longrightarrow> flags_mono h (upd_line a g h)"
  "keeps_flags g1 \<Longrightarrow> flags_mono h (upd_loop a g1 h)"
  "keeps_flags g2 \<Longrightarrow> flags_mono h (upd_surface a g2 h)"
  "keeps_flags g3 \<Longrightarrow> flags_mono h (upd_field a g3 h)"
proof -
  show "keeps_flags f \<Longrightarrow> flags_mono h (upd_point a f h)"
    unfolding flags_mono_def by (intro allI; case_tac r) (auto simp: upd_point_def keeps_flags_def)
  show "keeps_flags g \<Longrightarrow> flags_mono h (upd_line a g h)"
    unfolding flags_mono_def by (intro allI; case_tac r) (auto simp: upd_line_def keeps_flags_def)
  show "keeps_flags g1 \<Longrightarrow> flags_mono h (upd_loop a g1 h)"
    unfolding flags_mono_def by (intro allI; case_tac r) (auto simp: upd_loop_def keeps_flags_def)
  show "keeps_flags g2 \<Longrightarrow> flags_mono h (upd_surface a g2 h)"
    unfolding flags_mono_def by (intro allI; case_tac r) (auto simp: upd_surface_def keeps_flags_def)
  show "keeps_flags g3 \<Longrightarrow> flags_mono h (upd_field a g3 h)"
    unfolding flags_mono_def by (intro allI; case_tac r) (auto simp: upd_field_def keeps_flags_def)
qed

lemma keeps_flags_simps:
  "keeps_flags MeshTransaction_before_sync"
  "keeps_flags MeshTransaction_after_sync"
  "keeps_flags (\<lambda>ob. ob\<lparr>tag := t\<rparr>)"
  "keeps_flags (\<lambda>ob. ob)"
  by (simp_all add: keeps_flags_def store_defs)

lemma keeps_flags_line_tags: "keeps_flags (\<lambda>ob. ob\<lparr>line_tags := line_tags ob @ [t]\<rparr>)"
  by (simp add: keeps_flags_def)

lemma flags_mono_then:
  "flags_mono h h1 \<Longrightarrow> keeps_flags f \<Longrightarrow> flags_mono h (upd_point a f h1)"
  "flags_mono h h1 \<Longrightarrow> keeps_flags g \<Longrightarrow> flags_mono h (upd_line a g h1)"
  "flags_mono h h1 \<Longrightarrow> keeps_flags g1 \<Longrightarrow> flags_mono h (upd_loop a g1 h1)"
  "flags_mono h h1 \<Longrightarrow> keeps_flags g2 \<Longrightarrow> flags_mono h (upd_surface a g2 h1)"
  "flags_mono h h1 \<Longrightarrow> keeps_flags g3 \<Longrightarrow> flags_mono h (upd_field a g3 h1)"
  by (blast intro: flags_mono_trans flags_mono_upd)+

lemma fold_rel:
  assumes "\<And>s. R (g s) (g s)" and "\<And>a b c. R a b \<Longrightarrow> R b c \<Longrightarrow> R a c"
    and "\<And>x s. R (g s) (g (f x s))"
  shows "R (g s) (g (fold f xs s))"
proof (induction xs arbitrary: s)
  case Nil
  show ?case by (simp add: assms(1))
next
  case (Cons x xs)
  have "R (g s) (g (f x s))" by (rule assms(3))
  moreover have "R (g (f x s)) (g (fold f xs (f x s)))" by (rule Cons.IH)
  ultimately show ?case using assms(2) by auto
qed

lemma flags_mono_fold:
  assumes "\<And>x s. flags_mono (g s) (g (f x s))"
  shows "flags_mono (g s) (g (fold f xs s))"
  by (rule fold_rel[where R = flags_mono]) (auto intro: flags_mono_refl flags_mono_trans assms)

subsection \<open>Construction keeps flags\<close>

lemma Point_before_sync_mono: "flags_mono (fst s) (fst (Point_before_sync a s))"
  by (cases s)
     (auto simp: Point_before_sync.simps Let_def split_beta
       intro!: flags_mono_then flags_mono_refl keeps_flags_simps)

lemma Line_before_sync_mono: "flags_mono (fst s) (fst (Line_before_sync a s))"
proof (cases s)
  case (Pair h k)
  let ?s1 = "Point_before_sync (line_start (line_at h a)) (h, k)"
  let ?s2 = "Point_before_sync (line_end (line_at (fst ?s1) a)) ?s1"
  have "flags_mono h (fst ?s1)" using Point_before_sync_mono[of "(h, k)"] by simp
  moreover have "flags_mono (fst ?s1) (fst ?s2)" by (rule Point_before_sync_mono)
  ultimately have "flags_mono h (fst ?s2)" by (rule flags_mono_trans)
  then show ?thesis using Pair
    by (auto simp: Line_before_sync.simps Let_def split_beta
        intro!: flags_mono_then flags_mono_refl keeps_flags_simps)
qed

lemma Field_before_sync_mono: "flags_mono (fst s) (fst (Field_before_sync f c s))"
  by (cases s) (auto simp: Field_before_sync.simps intro!: flags_mono_upd keeps_flags_simps)

lemma CurveLoop_before_sync_line_mono:
  "flags_mono (fst s) (fst (CurveLoop_before_sync_line c l s))"
  using Line_before_sync_mono[of s l]
  by (cases s)
     (auto simp: CurveLoop_before_sync_line.simps split_beta
       intro!: flags_mono_then keeps_flags_line_tags)

lemma CurveLoop_before_sync_mono: "flags_mono (fst s) (fst (CurveLoop_before_sync a s))"
proof (cases s)
  case (Pair h k)
  let ?s1 = "fold (CurveLoop_before_sync_line a) (loop_lines (loop_at h a)) (h, k)"
  have 1: "flags_mono h (fst ?s1)"
    using flags_mono_fold[of fst "CurveLoop_before_sync_line a" "(h, k)", OF CurveLoop_before_sync_line_mono]
    by simp
  have 2: "flags_mono (fst s0) (fst (fold (\<lambda>f. Field_before_sync f a) fs s0))" for s0 fs
    by (rule flags_mono_fold) (rule Field_before_sync_mono)
  show ?thesis
  proof (cases "before_sync_initiated (loop_at h a)")
    case True
    then show ?thesis using Pair by (simp add: CurveLoop_before_sync_done flags_mono_refl)
  next
    case False
    then show ?thesis using Pair
      apply (simp add: CurveLoop_before_sync.simps Let_def split_beta)
      apply (rule flags_mono_then(3)[OF _ keeps_flags_simps(1)])
      apply (rule flags_mono_trans[OF _ 2])
      apply (simp add: flags_mono_then(3)[OF 1 keeps_flags_simps(3)])
      done
  qed
qed

lemma PlaneSurface_before_sync_mono: "flags_mono (fst s) (fst (PlaneSurface_before_sync a s))"
proof (cases s)
  case (Pair h k)
  let ?cs = "curve_loops (surface_at h a)"
  have 1: "flags_mono h (fst (snd (fold PlaneSurface_before_sync_loop ?cs ([], h, k))))"
    unfolding PlaneSurface_before_sync_loop_fold
    using flags_mono_fold[of fst CurveLoop_before_sync "(h, k)", OF CurveLoop_before_sync_mono]
    by simp
  show ?thesis
  proof (cases "before_sync_initiated (surface_at h a)")
    case True
    then show ?thesis using Pair by (simp add: PlaneSurface_before_sync_done flags_mono_refl)
  next
    case False
    then show ?thesis using Pair
      apply (simp add: PlaneSurface_before_sync.simps Let_def split_beta)
      apply (rule flags_mono_then(4)[OF _ keeps_flags_simps(1)])
      apply (rule flags_mono_then(4)[OF 1 keeps_flags_simps(3)])
      done
  qed
qed

subsection \<open>Refinement keeps flags\<close>

lemma Point_after_sync_mono: "flags_mono (fst s) (fst (Point_after_sync a s))"
  by (cases s) (auto simp: Point_after_sync.simps intro!: flags_mono_upd keeps_flags_simps)

lemma Line_after_sync_mono: "flags_mono (fst s) (fst (Line_after_sync a s))"
  by (cases s) (auto simp: Line_after_sync_heap intro!: flags_mono_upd keeps_flags_simps)

lemma Field_after_sync_heap:
  "fst (Field_after_sync f c (h, k)) =
     upd_field f MeshTransaction_after_sync
       (if boundary_layer (field_at h f) \<noteq> None \<and> \<not> after_sync_initiated (field_at h f)
        then upd_field f (\<lambda>ob. ob\<lparr>tag := Some (reply k (calls k) (FieldAdd ''BoundaryLayer''))\<rparr>) h
        else h)"
  by (auto simp: Field_after_sync.simps Let_def split_beta kernel_defs split: option.splits)

lemma Field_after_sync_mono: "flags_mono (fst s) (fst (Field_after_sync f c s))"
  by (cases s)
     (auto simp: Field_after_sync_heap simp del: not_None_eq
       intro!: flags_mono_then flags_mono_refl keeps_flags_simps)

lemma CurveLoop_after_sync_line_mono:
  "flags_mono (fst (snd s)) (fst (snd (CurveLoop_after_sync_line l s)))"
  by (cases s) (auto simp: CurveLoop_after_sync_line_heap intro!: flags_mono_upd keeps_flags_simps)

lemma CurveLoop_after_sync_mono: "flags_mono (fst s) (fst (CurveLoop_after_sync a s))"
proof (cases s)
  case (Pair h k)
  let ?s1 = "fold CurveLoop_after_sync_line (loop_lines (loop_at h a)) ([], h, k)"
  have 1: "flags_mono h (fst (snd ?s1))"
    using flags_mono_fold[of "\<lambda>s. fst (snd s)" CurveLoop_after_sync_line "([], h, k)",
        OF CurveLoop_after_sync_line_mono]
    by simp
  have 2: "flags_mono (fst s0) (fst (fold (\<lambda>f. Field_after_sync f a) fs s0))" for s0 fs
    by (rule flags_mono_fold) (rule Field_after_sync_mono)
  show ?thesis
  proof (cases "after_sync_initiated (loop_at h a)")
    case True
    then show ?thesis using Pair
      by (auto simp: CurveLoop_after_sync.simps intro!: flags_mono_upd keeps_flags_simps)
  next
    case False
    then show ?thesis using Pair
      apply (simp add: CurveLoop_after_sync.simps Let_def split_beta)
      apply (rule flags_mono_then(3)[OF _ keeps_flags_simps(2)])
      apply (rule flags_mono_trans[OF _ 2])
      apply (simp add: 1)
      done
  qed
qed

lemma PlaneSurface_after_sync_base_mono:
  "flags_mono (fst s) (fst (PlaneSurface_after_sync_base a s))"
proof (cases s)
  case (Pair h k)
  have 1: "flags_mono h (fst (fold CurveLoop_after_sync cs (h, k)))" for cs
    using flags_mono_fold[of fst CurveLoop_after_sync "(h, k)", OF CurveLoop_after_sync_mono]
    by simp
  show ?thesis using Pair
    by (auto simp: PlaneSurface_after_sync_base.simps Let_def split_beta 1
        intro!: flags_mono_then flags_mono_refl keeps_flags_simps)
qed

lemma PlaneSurface_after_sync_mono: "flags_mono (fst s) (fst (PlaneSurface_after_sync a s))"
  using PlaneSurface_after_sync_base_mono
  by (cases s) (auto simp: PlaneSurface_after_sync.simps Let_def split: option.splits dest: spec)

subsection \<open>Refinement sets the flag\<close>

lemma Point_after_sync_flag: "after_sync_initiated (point_at (fst (Point_after_sync a s)) a)"
  by (cases s) (simp add: Point_after_sync.simps store_defs)

lemma Line_after_sync_flag: "after_sync_initiated (line_at (fst (Line_after_sync a s)) a)"
  by (cases s) (simp add: Line_after_sync_heap store_defs)

lemma CurveLoop_after_sync_flag: "after_sync_initiated (loop_at (fst (CurveLoop_after_sync a s)) a)"
  by (cases s) (simp add: CurveLoop_after_sync.simps Let_def split_beta store_defs)

lemma PlaneSurface_after_sync_base_flag:
  "after_sync_initiated (surface_at (fst (PlaneSurface_after_sync_base a s)) a)"
  by (cases s) (simp add: PlaneSurface_after_sync_base.simps Let_def split_beta store_defs)

lemma PlaneSurface_after_sync_flag:
  "after_sync_initiated (surface_at (fst (PlaneSurface_after_sync a s)) a)"
  by (cases s)
     (simp add: PlaneSurface_after_sync.simps Let_def PlaneSurface_after_sync_base_flag
       split: option.splits)

lemma Point_after_sync_kernel: "snd (Point_after_sync a s) = snd s"
  by (cases s) (simp add: Point_after_sync.simps)

subsection \<open>The two loops of \<^verbatim>\<open>generate\<close>\<close>

lemma before_sync_entity:
  assumes "is_entity r"
  shows "\<exists>s'. before_sync r s = Inr s' \<and> extends is_phase1 (snd s) (snd s')
            \<and> flags_mono (fst s) (fst s') \<and> constructed (fst s') r"
proof (cases r)
  case (PointRef a)
  have "extends is_phase1 (snd s) (snd (Point_before_sync a s))"
    by (rule extends_mono[OF Point_before_sync_extends]) (simp add: is_phase1_def)
  then show ?thesis using PointRef Point_before_sync_mono[of s a] Point_before_sync_flag[of a s] by simp
next
  case (LineRef a)
  have "extends is_phase1 (snd s) (snd (Line_before_sync a s))"
    by (rule extends_mono[OF Line_before_sync_extends]) (auto simp: is_phase1_def is_point_or_line_def)
  then show ?thesis using LineRef Line_before_sync_mono[of s a] Line_before_sync_flag[of a s] by simp
next
  case (CurveLoopRef a)
  have "extends is_phase1 (snd s) (snd (CurveLoop_before_sync a s))"
    by (rule extends_mono[OF CurveLoop_before_sync_extends])
       (auto simp: is_phase1_def is_loop_construction_def)
  then show ?thesis
    using CurveLoopRef CurveLoop_before_sync_mono[of s a] CurveLoop_before_sync_flag[of a s] by simp
next
  case (PlaneSurfaceRef a)
  then show ?thesis
    using PlaneSurface_before_sync_extends[of s a] PlaneSurface_before_sync_mono[of s a]
      PlaneSurface_before_sync_flag[of a s] by simp
next
  case (FieldRef a)
  with assms show ?thesis by simp
qed

lemma after_sync_entity:
  assumes "is_entity r"
  shows "\<exists>s'. after_sync r s = Inr s' \<and> extends is_phase2 (snd s) (snd s')
            \<and> flags_mono (fst s) (fst s') \<and> refined (fst s') r"
proof (cases r)
  case (PointRef a)
  then show ?thesis
    using Point_after_sync_mono[of s a] Point_after_sync_flag[of a s]
    by (simp add: Point_after_sync_kernel extends_refl)
next
  case (LineRef a)
  have "extends is_phase2 (snd s) (snd (Line_after_sync a s))"
    by (rule extends_mono[OF Line_after_sync_extends])
       (simp add: is_phase2_def is_base_refinement_def is_loop_refinement_def)
  then show ?thesis using LineRef Line_after_sync_mono[of s a] Line_after_sync_flag[of a s] by simp
next
  case (CurveLoopRef a)
  have "extends is_phase2 (snd s) (snd (CurveLoop_after_sync a s))"
    by (rule extends_mono[OF CurveLoop_after_sync_extends])
       (simp add: is_phase2_def is_base_refinement_def)
  then show ?thesis
    using CurveLoopRef CurveLoop_after_sync_mono[of s a] CurveLoop_after_sync_flag[of a s] by simp
next
  case (PlaneSurfaceRef a)
  then show ?thesis
    using PlaneSurface_after_sync_extends[of s a] PlaneSurface_after_sync_mono[of s a]
      PlaneSurface_after_sync_flag[of a s] by simp
next
  case (FieldRef a)
  with assms show ?thesis by simp
qed

lemma before_sync_all_entities:
  assumes "\<forall>r \<in> set rs. is_entity r"
  shows "\<exists>s'. before_sync_all rs s = Inr s' \<and> extends is_phase1 (snd s) (snd s')
            \<and> flags_mono (fst s) (fst s') \<and> (\<forall>r \<in> set rs. constructed (fst s') r)"
  using assms
proof (induction rs arbitrary: s)
  case Nil
  show ?case by (simp add: extends_refl flags_mono_refl)
next
  case (Cons r rs)
  from Cons.prems have "is_entity r" by simp
  from before_sync_entity[OF this, of s] obtain s1 where
    1: "before_sync r s = Inr s1" "extends is_phase1 (snd s) (snd s1)"
       "flags_mono (fst s) (fst s1)" "constructed (fst s1) r"
    by blast
  from Cons.IH[of s1] Cons.prems obtain s2 where
    2: "before_sync_all rs s1 = Inr s2" "extends is_phase1 (snd s1) (snd s2)"
       "flags_mono (fst s1) (fst s2)" "\<forall>x \<in> set rs. constructed (fst s2) x"
    by auto
  have "constructed (fst s2) r" using 1(4) 2(3) by (simp add: flags_mono_def)
  with 1 2 show ?case
    by (auto intro: extends_trans flags_mono_trans)
qed

lemma after_sync_all_entities:
  assumes "\<forall>r \<in> set rs. is_entity r"
  shows "\<exists>s'. after_sync_all rs s = Inr s' \<and> extends is_phase2 (snd s) (snd s')
            \<and> flags_mono (fst s) (fst s') \<and> (\<forall>r \<in> set rs. refined (fst s') r)"
  using assms
proof (induction rs arbitrary: s)
  case Nil
  show ?case by (simp add: extends_refl flags_mono_refl)
next
  case (Cons r rs)
  from Cons.prems have "is_entity r" by simp
  from after_sync_entity[OF this, of s] obtain s1 where
    1: "after_sync r s = Inr s1" "extends is_phase2 (snd s) (snd s1)"
       "flags_mono (fst s) (fst s1)" "refined (fst s1) r"
    by blast
  from Cons.IH[of s1] Cons.prems obtain s2 where
    2: "after_sync_all rs s1 = Inr s2" "extends is_phase2 (snd s1) (snd s2)"
       "flags_mono (fst s1) (fst s2)" "\<forall>x \<in> set rs. refined (fst s2) x"
    by auto
  have "refined (fst s2) r" using 1(4) 2(3) by (simp add: flags_mono_def)
  with 1 2 show ?case
    by (auto intro: extends_trans flags_mono_trans)
qed

lemma run_before_sync_all: "run_before_sync ts s = before_sync_all (roots_of ts) s"
  by (cases ts) (simp_all add: ebind_def split: sum.splits)

lemma run_after_sync_all: "run_after_sync ts s = after_sync_all (roots_of ts) s"
  by (cases ts) (simp_all add: ebind_def split: sum.splits)

lemma phases_disjoint: "is_phase1 c \<Longrightarrow> \<not> is_phase2 c"
  by (cases c)
     (simp_all add: is_phase1_def is_phase2_def is_base_refinement_def is_loop_refinement_def)

text \<open>
  Claim C1. For every call of \<^verbatim>\<open>generate\<close> with one root entity or a list of root
  entities: the construction loop runs \<^verbatim>\<open>before_sync\<close> over the roots in their order and
  completes with every root constructed, sending the kernel only creation calls \<open>pre\<close>;
  then the kernel receives one synchronize call; then the refinement loop runs
  \<^verbatim>\<open>after_sync\<close> over the roots in the same order and completes with every root refined,
  sending only refinement calls \<open>post\<close>; then mesh generation is requested. The
  synchronize call is the only one, and no refinement call precedes it.
\<close>

theorem generate_two_phases:
  assumes "\<forall>r \<in> set (roots_of ts). is_entity r"
  shows "\<exists>h1 k1 h3 k3 k5 pre post.
           run_before_sync ts (h, k) = Inr (h1, k1)
         \<and> run_before_sync ts (h, k) = before_sync_all (roots_of ts) (h, k)
         \<and> calls k1 = calls k @ pre \<and> list_all is_phase1 pre
         \<and> (\<forall>r \<in> set (roots_of ts). constructed h1 r)
         \<and> run_after_sync ts (h1, kernel_void Synchronize k1) = Inr (h3, k3)
         \<and> run_after_sync ts (h1, kernel_void Synchronize k1) =
             after_sync_all (roots_of ts) (h1, kernel_void Synchronize k1)
         \<and> calls k3 = calls k @ pre @ [Synchronize] @ post \<and> list_all is_phase2 post
         \<and> (\<forall>r \<in> set (roots_of ts). refined h3 r)
         \<and> Geometry_generate import_from_gmsh ts (h, k) = Inr (import_from_gmsh k5, h3, k5)
         \<and> calls k5 = calls k @ pre @ [Synchronize] @ post
                        @ [MeshGenerate, OptionSetNumber ''Mesh.SaveAll'' 1]
         \<and> length (filter (\<lambda>c. c = Synchronize) (new_calls k k5)) = 1
         \<and> list_all (\<lambda>c. \<not> is_phase2 c) pre"
proof -
  from before_sync_all_entities[OF assms, of "(h, k)"] obtain h1 k1 where
    b: "before_sync_all (roots_of ts) (h, k) = Inr (h1, k1)" "extends is_phase1 k k1"
       "\<forall>r \<in> set (roots_of ts). constructed h1 r"
    by fastforce
  from b(2) obtain pre where pre: "calls k1 = calls k @ pre" "list_all is_phase1 pre" "reply k1 = reply k"
    by (rule extendsE)
  let ?k2 = "kernel_void Synchronize k1"
  from after_sync_all_entities[OF assms, of "(h1, ?k2)"] obtain h3 k3 where
    a: "after_sync_all (roots_of ts) (h1, ?k2) = Inr (h3, k3)" "extends is_phase2 ?k2 k3"
       "\<forall>r \<in> set (roots_of ts). refined h3 r"
    by fastforce
  from a(2) obtain post where post: "calls k3 = calls ?k2 @ post" "list_all is_phase2 post"
    by (rule extendsE)
  let ?k5 = "kernel_void (OptionSetNumber ''Mesh.SaveAll'' 1) (kernel_void MeshGenerate k3)"
  have c3: "calls k3 = calls k @ pre @ [Synchronize] @ post"
    using post(1) pre(1) by (simp add: calls_kernel_void)
  have c5: "calls ?k5 = calls k @ pre @ [Synchronize] @ post
              @ [MeshGenerate, OptionSetNumber ''Mesh.SaveAll'' 1]"
    using c3 by (simp add: calls_kernel_void)
  have g: "Geometry_generate import_from_gmsh ts (h, k) = Inr (import_from_gmsh ?k5, h3, ?k5)"
    using a(1) b(1) by (simp add: Geometry_generate.simps run_before_sync_all run_after_sync_all Let_def)
  have n2: "list_all (\<lambda>c. \<not> is_phase2 c) pre"
    using pre(2) by (auto simp: list_all_iff phases_disjoint)
  have f1: "filter (\<lambda>c. c = Synchronize) pre = []"
    using pre(2) by (auto simp: filter_empty_conv list_all_iff is_phase1_def)
  have f2: "filter (\<lambda>c. c = Synchronize) post = []"
    using post(2)
    by (auto simp: filter_empty_conv list_all_iff is_phase2_def is_base_refinement_def
        is_loop_refinement_def)
  have one: "length (filter (\<lambda>c. c = Synchronize) (new_calls k ?k5)) = 1"
    using c5 f1 f2 by (simp add: new_calls_def)
  show ?thesis
    apply (rule exI[of _ h1], rule exI[of _ k1], rule exI[of _ h3], rule exI[of _ k3],
        rule exI[of _ ?k5], rule exI[of _ pre], rule exI[of _ post])
    using b(1,3) a(1,3) pre(1,2) post(2) c3 c5 g n2 one
    by (simp add: run_before_sync_all run_after_sync_all)
qed

theorem generate_two_phases_witness:
  "\<exists>h3 k5.
     Geometry_generate (\<lambda>k. ()) (Listed [PlaneSurfaceRef 4, LineRef 0]) (tri_heap, counting_kernel) =
       Inr ((), h3, k5)
   \<and> calls k5 =
       [AddPoint 0 0 0 0, AddPoint 0 0 0 0, AddLine (Some 1) (Some 2), AddPoint 0 0 0 0,
        AddLine (Some 2) (Some 4), AddLine (Some 4) (Some 1), AddCurveLoop [Some 3, Some 5, Some 6],
        AddPlaneSurface [Some 7],
        Synchronize,
        SetTransfiniteSurface (Some 8) [Some 1, Some 2, Some 4],
        AddPhysicalGroup 1 [Some 3, Some 6], SetPhysicalName 1 11 ''wall'',
        AddPhysicalGroup 2 [Some 8], SetPhysicalName 2 13 ''domain'',
        SetRecombine 2 (Some 8),
        MeshGenerate, OptionSetNumber ''Mesh.SaveAll'' 1]"
proof -
  have h: "\<forall>r \<in> set (roots_of (Listed [PlaneSurfaceRef 4, LineRef 0])). is_entity r" by simp
  from generate_two_phases[OF h, where import_from_gmsh = "\<lambda>k. ()" and h = tri_heap and k = counting_kernel] obtain h3 k5 where
    g: "Geometry_generate (\<lambda>k. ()) (Listed [PlaneSurfaceRef 4, LineRef 0]) (tri_heap, counting_kernel) =
          Inr ((), h3, k5)"
    by blast
  from g have "calls k5 =
       [AddPoint 0 0 0 0, AddPoint 0 0 0 0, AddLine (Some 1) (Some 2), AddPoint 0 0 0 0,
        AddLine (Some 2) (Some 4), AddLine (Some 4) (Some 1), AddCurveLoop [Some 3, Some 5, Some 6],
        AddPlaneSurface [Some 7],
        Synchronize,
        SetTransfiniteSurface (Some 8) [Some 1, Some 2, Some 4],
        AddPhysicalGroup 1 [Some 3, Some 6], SetPhysicalName 1 11 ''wall'',
        AddPhysicalGroup 2 [Some 8], SetPhysicalName 2 13 ''domain'',
        SetRecombine 2 (Some 8),
        MeshGenerate, OptionSetNumber ''Mesh.SaveAll'' 1]"
    by (auto simp add: Geometry_generate.simps tri_heap_def run_defs)
  with g show ?thesis by blast
qed

subsection \<open>Each point is created once\<close>

lemma same_shape_refl: "same_shape h h"
  by (simp add: same_shape_def)

lemma same_shape_trans: "same_shape h h1 \<Longrightarrow> same_shape h1 h2 \<Longrightarrow> same_shape h h2"
  by (simp add: same_shape_def)

lemma same_shape_pts:
  assumes "same_shape h h'"
  shows "pts_line h' l = pts_line h l" "pts_loop h' c = pts_loop h c" "pts_surf h' s = pts_surf h s"
proof -
  show 1: "pts_line h' l = pts_line h l" for l using assms by (simp add: pts_line_def same_shape_def)
  show 2: "pts_loop h' c = pts_loop h c" for c using assms 1 by (simp add: pts_loop_def same_shape_def)
  show "pts_surf h' s = pts_surf h s" using assms 2 by (simp add: pts_surf_def same_shape_def)
qed

lemma finite_pts: "finite (pts_line h l)" "finite (pts_loop h c)" "finite (pts_surf h s)"
  by (simp_all add: pts_line_def pts_loop_def pts_surf_def)

lemma built_refl: "built {} s s"
  by (simp add: built_def same_shape_refl)

lemma built_subset:
  assumes "P \<subseteq> pinit (fst s)"
  shows "built P s s"
proof -
  have e: "P - pinit (fst s) = {}" and u: "pinit (fst s) \<union> P = pinit (fst s)"
    using assms by auto
  show ?thesis unfolding built_def e u by (simp add: same_shape_refl)
qed

lemma card_two_steps:
  assumes "finite P" "finite Q"
  shows "card (P - I) + card (Q - (I \<union> P)) = card ((P \<union> Q) - I)"
proof -
  have "(P \<union> Q) - I = (P - I) \<union> (Q - (I \<union> P))" by auto
  moreover have "(P - I) \<inter> (Q - (I \<union> P)) = {}" by auto
  ultimately show ?thesis using assms by (simp add: card_Un_disjoint)
qed

lemma builtD:
  assumes "built P s s'"
  shows "same_shape (fst s) (fst s')"
    and "pinit (fst s') = pinit (fst s) \<union> P"
    and "npoints (snd s') = npoints (snd s) + card (P - pinit (fst s))"
    and "\<And>l. before_sync_initiated (line_at (fst s') l) \<Longrightarrow>
          \<not> before_sync_initiated (line_at (fst s) l) \<Longrightarrow> pts_line (fst s) l \<subseteq> pinit (fst s')"
    and "\<And>c. before_sync_initiated (loop_at (fst s') c) \<Longrightarrow>
          \<not> before_sync_initiated (loop_at (fst s) c) \<Longrightarrow> pts_loop (fst s) c \<subseteq> pinit (fst s')"
    and "\<And>a. before_sync_initiated (surface_at (fst s') a) \<Longrightarrow>
          \<not> before_sync_initiated (surface_at (fst s) a) \<Longrightarrow> pts_surf (fst s) a \<subseteq> pinit (fst s')"
  using assms unfolding built_def by blast+

lemma builtI:
  assumes "same_shape (fst s) (fst s')"
    and "pinit (fst s') = pinit (fst s) \<union> P"
    and "npoints (snd s') = npoints (snd s) + card (P - pinit (fst s))"
    and "\<And>l. before_sync_initiated (line_at (fst s') l) \<Longrightarrow>
          \<not> before_sync_initiated (line_at (fst s) l) \<Longrightarrow> pts_line (fst s) l \<subseteq> pinit (fst s')"
    and "\<And>c. before_sync_initiated (loop_at (fst s') c) \<Longrightarrow>
          \<not> before_sync_initiated (loop_at (fst s) c) \<Longrightarrow> pts_loop (fst s) c \<subseteq> pinit (fst s')"
    and "\<And>a. before_sync_initiated (surface_at (fst s') a) \<Longrightarrow>
          \<not> before_sync_initiated (surface_at (fst s) a) \<Longrightarrow> pts_surf (fst s) a \<subseteq> pinit (fst s')"
  shows "built P s s'"
  unfolding built_def using assms by blast

lemma built_trans:
  assumes 1: "built P s s1" and 2: "built Q s1 s2" and f: "finite P" "finite Q"
  shows "built (P \<union> Q) s s2"
proof (rule builtI)
  note A = builtD[OF 1]
  note B = builtD[OF 2]
  show "same_shape (fst s) (fst s2)" using same_shape_trans[OF A(1) B(1)] .
  show "pinit (fst s2) = pinit (fst s) \<union> (P \<union> Q)" using A(2) B(2) by (simp add: Un_assoc)
  show "npoints (snd s2) = npoints (snd s) + card (P \<union> Q - pinit (fst s))"
    using A(2,3) B(3) card_two_steps[OF f, of "pinit (fst s)"] by simp
  have sub: "pinit (fst s1) \<subseteq> pinit (fst s2)" using B(2) by simp
  show "pts_line (fst s) l \<subseteq> pinit (fst s2)"
    if n: "before_sync_initiated (line_at (fst s2) l)" "\<not> before_sync_initiated (line_at (fst s) l)" for l
  proof (cases "before_sync_initiated (line_at (fst s1) l)")
    case True
    from A(4)[OF True n(2)] sub show ?thesis by (rule subset_trans)
  next
    case False
    from B(4)[OF n(1) False] show ?thesis by (simp add: same_shape_pts(1)[OF A(1)])
  qed
  show "pts_loop (fst s) c \<subseteq> pinit (fst s2)"
    if n: "before_sync_initiated (loop_at (fst s2) c)" "\<not> before_sync_initiated (loop_at (fst s) c)" for c
  proof (cases "before_sync_initiated (loop_at (fst s1) c)")
    case True
    from A(5)[OF True n(2)] sub show ?thesis by (rule subset_trans)
  next
    case False
    from B(5)[OF n(1) False] show ?thesis by (simp add: same_shape_pts(2)[OF A(1)])
  qed
  show "pts_surf (fst s) a \<subseteq> pinit (fst s2)"
    if n: "before_sync_initiated (surface_at (fst s2) a)" "\<not> before_sync_initiated (surface_at (fst s) a)" for a
  proof (cases "before_sync_initiated (surface_at (fst s1) a)")
    case True
    from A(6)[OF True n(2)] sub show ?thesis by (rule subset_trans)
  next
    case False
    from B(6)[OF n(1) False] show ?thesis by (simp add: same_shape_pts(3)[OF A(1)])
  qed
qed

lemma points_closedD:
  assumes "points_closed h"
  shows "before_sync_initiated (line_at h l) \<Longrightarrow> pts_line h l \<subseteq> pinit h"
    and "before_sync_initiated (loop_at h c) \<Longrightarrow> pts_loop h c \<subseteq> pinit h"
    and "before_sync_initiated (surface_at h a) \<Longrightarrow> pts_surf h a \<subseteq> pinit h"
  using assms unfolding points_closed_def by blast+

lemma built_closed:
  assumes c: "points_closed (fst s)" and b: "built P s s'"
  shows "points_closed (fst s')"
proof -
  note A = builtD[OF b]
  note pts = same_shape_pts[OF A(1)]
  have sub: "pinit (fst s) \<subseteq> pinit (fst s')" using A(2) by simp
  have 1: "pts_line (fst s') l \<subseteq> pinit (fst s')" if "before_sync_initiated (line_at (fst s') l)" for l
  proof (cases "before_sync_initiated (line_at (fst s) l)")
    case True
    from points_closedD(1)[OF c True] sub show ?thesis unfolding pts by (rule subset_trans)
  next
    case False
    from A(4)[OF that False] show ?thesis unfolding pts .
  qed
  have 2: "pts_loop (fst s') l \<subseteq> pinit (fst s')" if "before_sync_initiated (loop_at (fst s') l)" for l
  proof (cases "before_sync_initiated (loop_at (fst s) l)")
    case True
    from points_closedD(2)[OF c True] sub show ?thesis unfolding pts by (rule subset_trans)
  next
    case False
    from A(5)[OF that False] show ?thesis unfolding pts .
  qed
  have 3: "pts_surf (fst s') l \<subseteq> pinit (fst s')" if "before_sync_initiated (surface_at (fst s') l)" for l
  proof (cases "before_sync_initiated (surface_at (fst s) l)")
    case True
    from points_closedD(3)[OF c True] sub show ?thesis unfolding pts by (rule subset_trans)
  next
    case False
    from A(6)[OF that False] show ?thesis unfolding pts .
  qed
  show ?thesis unfolding points_closed_def using 1 2 3 by blast
qed

lemma npoints_other: "\<not> is_add_point c \<Longrightarrow> npoints (k\<lparr>calls := calls k @ [c]\<rparr>) = npoints k"
  by (simp add: npoints_def)

lemma npoints_point: "is_add_point c \<Longrightarrow> npoints (k\<lparr>calls := calls k @ [c]\<rparr>) = Suc (npoints k)"
  by (simp add: npoints_def)

lemma Point_before_sync_built: "built {a} (h, k) (Point_before_sync a (h, k))"
proof (cases "before_sync_initiated (point_at h a)")
  case True
  then have "{a} \<subseteq> pinit (fst (h, k))" by (simp add: pinit_def)
  from built_subset[OF this] True show ?thesis by (simp add: Point_before_sync_done)
next
  case False
  let ?c = "AddPoint (point_x (point_at h a)) (point_y (point_at h a)) (point_z (point_at h a))
              (mesh_size (point_at h a))"
  let ?h' = "upd_point a MeshTransaction_before_sync
               (upd_point a (\<lambda>ob. ob\<lparr>tag := Some (reply k (calls k) ?c)\<rparr>) h)"
  have r: "Point_before_sync a (h, k) = (?h', k\<lparr>calls := calls k @ [?c]\<rparr>)"
    using False by (simp add: Point_before_sync.simps Let_def kernel_defs)
  have p: "pinit ?h' = pinit h \<union> {a}" by (auto simp: pinit_def store_defs)
  have na: "{a} - pinit h = {a}" using False by (auto simp: pinit_def)
  show ?thesis
    unfolding r
    by (rule builtI) (simp_all add: p na npoints_point, simp_all add: same_shape_def store_defs)
qed

lemma built_upd_line:
  assumes b: "built P s (h2, k2)"
    and fl: "before_sync_initiated (f (line_at h2 l)) \<Longrightarrow>
             before_sync_initiated (line_at h2 l) \<or> pts_line (fst s) l \<subseteq> pinit h2"
    and n: "npoints k3 = npoints k2"
    and keep: "line_start (f (line_at h2 l)) = line_start (line_at h2 l)"
      "line_end (f (line_at h2 l)) = line_end (line_at h2 l)"
  shows "built P s (upd_line l f h2, k3)"
proof (rule builtI)
  note A = builtD[OF b, simplified]
  show "same_shape (fst s) (fst (upd_line l f h2, k3))"
    using A(1) keep by (simp add: same_shape_def upd_line_def)
  show "pinit (fst (upd_line l f h2, k3)) = pinit (fst s) \<union> P"
    using A(2) by (simp add: pinit_def upd_line_def)
  show "npoints (snd (upd_line l f h2, k3)) = npoints (snd s) + card (P - pinit (fst s))"
    using A(3) n by simp
  have pi: "pinit (upd_line l f h2) = pinit h2" by (simp add: pinit_def upd_line_def)
  show "pts_line (fst s) x \<subseteq> pinit (fst (upd_line l f h2, k3))"
    if "before_sync_initiated (line_at (fst (upd_line l f h2, k3)) x)"
      "\<not> before_sync_initiated (line_at (fst s) x)" for x
  proof (cases "x = l")
    case True
    with that(1) have "before_sync_initiated (f (line_at h2 l))" by (simp add: upd_line_def)
    from fl[OF this] show ?thesis
    proof
      assume "before_sync_initiated (line_at h2 l)"
      from A(4)[OF this] that(2) True show ?thesis by (simp add: pi)
    next
      assume "pts_line (fst s) l \<subseteq> pinit h2"
      then show ?thesis using True by (simp add: pi)
    qed
  next
    case False
    with that(1) have "before_sync_initiated (line_at h2 x)" by (simp add: upd_line_def)
    from A(4)[OF this that(2)] show ?thesis by (simp add: pi)
  qed
  show "pts_loop (fst s) c \<subseteq> pinit (fst (upd_line l f h2, k3))"
    if "before_sync_initiated (loop_at (fst (upd_line l f h2, k3)) c)"
      "\<not> before_sync_initiated (loop_at (fst s) c)" for c
    using A(5)[of c] that by (simp add: pi) (simp add: upd_line_def)
  show "pts_surf (fst s) a \<subseteq> pinit (fst (upd_line l f h2, k3))"
    if "before_sync_initiated (surface_at (fst (upd_line l f h2, k3)) a)"
      "\<not> before_sync_initiated (surface_at (fst s) a)" for a
    using A(6)[of a] that by (simp add: pi) (simp add: upd_line_def)
qed

lemma Line_before_sync_built:
  assumes "points_closed h"
  shows "built (pts_line h l) (h, k) (Line_before_sync l (h, k))"
proof (cases "before_sync_initiated (line_at h l)")
  case True
  from points_closedD(1)[OF assms True] have "pts_line h l \<subseteq> pinit (fst (h, k))" by simp
  from built_subset[OF this] True show ?thesis by (simp add: Line_before_sync_done)
next
  case False
  let ?p = "line_start (line_at h l)"
  obtain h1 k1 where s1: "Point_before_sync ?p (h, k) = (h1, k1)"
    by (cases "Point_before_sync ?p (h, k)")
  let ?q = "line_end (line_at h1 l)"
  obtain h2 k2 where s2: "Point_before_sync ?q (h1, k1) = (h2, k2)"
    by (cases "Point_before_sync ?q (h1, k1)")
  have b1: "built {?p} (h, k) (h1, k1)" using Point_before_sync_built[of ?p h k] s1 by simp
  have b2: "built {?q} (h1, k1) (h2, k2)" using Point_before_sync_built[of ?q h1 k1] s2 by simp
  have q: "?q = line_end (line_at h l)" using builtD(1)[OF b1] by (simp add: same_shape_def)
  have "built ({?p} \<union> {?q}) (h, k) (h2, k2)" by (rule built_trans[OF b1 b2]) simp_all
  then have b: "built (pts_line h l) (h, k) (h2, k2)" by (simp add: q pts_line_def insert_commute)
  have sub: "pts_line h l \<subseteq> pinit h2" using builtD(2)[OF b] by simp
  let ?c = "AddLine (tag (point_at h2 (line_start (line_at h2 l))))
                    (tag (point_at h2 (line_end (line_at h2 l))))"
  let ?f = "\<lambda>ob. MeshTransaction_before_sync (ob\<lparr>tag := Some (reply k2 (calls k2) ?c)\<rparr>)"
  have r: "Line_before_sync l (h, k) = (upd_line l ?f h2, k2\<lparr>calls := calls k2 @ [?c]\<rparr>)"
    using False s1 s2 by (simp add: Line_before_sync.simps Let_def kernel_defs store_defs)
  show ?thesis
    unfolding r
    by (rule built_upd_line[OF b]) (simp_all add: sub npoints_other store_defs)
qed

lemma built_tweak:
  assumes b: "built P s (h2, k2)"
    and p: "point_at h3 = point_at h2"
    and sh: "same_shape h2 h3"
    and n: "npoints k3 = npoints k2"
    and l: "\<And>x. before_sync_initiated (line_at h3 x) \<Longrightarrow>
              before_sync_initiated (line_at h2 x) \<or> pts_line (fst s) x \<subseteq> pinit h2"
    and c: "\<And>x. before_sync_initiated (loop_at h3 x) \<Longrightarrow>
              before_sync_initiated (loop_at h2 x) \<or> pts_loop (fst s) x \<subseteq> pinit h2"
    and a: "\<And>x. before_sync_initiated (surface_at h3 x) \<Longrightarrow>
              before_sync_initiated (surface_at h2 x) \<or> pts_surf (fst s) x \<subseteq> pinit h2"
  shows "built P s (h3, k3)"
proof (rule builtI)
  note A = builtD[OF b, simplified]
  have pi: "pinit h3 = pinit h2" using p by (simp add: pinit_def)
  show "same_shape (fst s) (fst (h3, k3))" using same_shape_trans[OF A(1) sh] by simp
  show "pinit (fst (h3, k3)) = pinit (fst s) \<union> P" using A(2) pi by simp
  show "npoints (snd (h3, k3)) = npoints (snd s) + card (P - pinit (fst s))" using A(3) n by simp
  show "pts_line (fst s) x \<subseteq> pinit (fst (h3, k3))"
    if "before_sync_initiated (line_at (fst (h3, k3)) x)" "\<not> before_sync_initiated (line_at (fst s) x)" for x
    using l[of x] A(4)[of x] that by (auto simp: pi)
  show "pts_loop (fst s) x \<subseteq> pinit (fst (h3, k3))"
    if "before_sync_initiated (loop_at (fst (h3, k3)) x)" "\<not> before_sync_initiated (loop_at (fst s) x)" for x
    using c[of x] A(5)[of x] that by (auto simp: pi)
  show "pts_surf (fst s) x \<subseteq> pinit (fst (h3, k3))"
    if "before_sync_initiated (surface_at (fst (h3, k3)) x)" "\<not> before_sync_initiated (surface_at (fst s) x)" for x
    using a[of x] A(6)[of x] that by (auto simp: pi)
qed

lemma built_fold:
  assumes step: "\<And>x s. points_closed (fst s) \<Longrightarrow> built (Pf (fst s) x) s (f x s)"
    and inv: "\<And>h h' x. same_shape h h' \<Longrightarrow> Pf h' x = Pf h x"
    and fin: "\<And>h x. finite (Pf h x)"
  shows "points_closed (fst s) \<Longrightarrow> built (\<Union>x \<in> set xs. Pf (fst s) x) s (fold f xs s)"
proof (induction xs arbitrary: s)
  case Nil
  show ?case by (simp add: built_refl)
next
  case (Cons x xs)
  have 1: "built (Pf (fst s) x) s (f x s)" by (rule step[OF Cons.prems])
  have cl: "points_closed (fst (f x s))" by (rule built_closed[OF Cons.prems 1])
  have e: "Pf (fst (f x s)) y = Pf (fst s) y" for y by (rule inv[OF builtD(1)[OF 1]])
  have 2: "built (\<Union>y \<in> set xs. Pf (fst s) y) (f x s) (fold f xs (f x s))"
    using Cons.IH[OF cl] by (simp add: e)
  have "built (Pf (fst s) x \<union> (\<Union>y \<in> set xs. Pf (fst s) y)) s (fold f xs (f x s))"
    by (rule built_trans[OF 1 2]) (simp_all add: fin)
  then show ?case by simp
qed

lemma CurveLoop_before_sync_line_built:
  assumes "points_closed (fst s)"
  shows "built (pts_line (fst s) l) s (CurveLoop_before_sync_line c l s)"
proof -
  obtain h k where s: "s = (h, k)" by (cases s)
  obtain h1 k1 where s1: "Line_before_sync l (h, k) = (h1, k1)" by (cases "Line_before_sync l (h, k)")
  have b: "built (pts_line (fst s) l) s (h1, k1)"
    using Line_before_sync_built[of h l k] assms s s1 by simp
  have r: "CurveLoop_before_sync_line c l s
           = (upd_loop c (\<lambda>ob. ob\<lparr>line_tags := line_tags ob @ [tag (line_at h1 l)]\<rparr>) h1, k1)"
    using s s1 by (simp add: CurveLoop_before_sync_line.simps)
  show ?thesis
    unfolding r
    by (rule built_tweak[OF b]) (auto simp: upd_loop_def same_shape_def split: if_splits)
qed

lemma CurveLoop_before_sync_built:
  assumes cl: "points_closed (fst s)"
  shows "built (pts_loop (fst s) c) s (CurveLoop_before_sync c s)"
proof -
  obtain h k where s: "s = (h, k)" by (cases s)
  show ?thesis
  proof (cases "before_sync_initiated (loop_at h c)")
    case True
    from points_closedD(2)[OF cl] True s have "pts_loop (fst s) c \<subseteq> pinit (fst s)" by simp
    from built_subset[OF this] True s show ?thesis by (simp add: CurveLoop_before_sync_done)
  next
    case False
    let ?ls = "loop_lines (loop_at h c)"
    obtain h1 k1 where s1: "fold (CurveLoop_before_sync_line c) ?ls (h, k) = (h1, k1)"
      by (cases "fold (CurveLoop_before_sync_line c) ?ls (h, k)")
    have "built (\<Union>l \<in> set ?ls. pts_line (fst s) l) s (fold (CurveLoop_before_sync_line c) ?ls s)"
      by (rule built_fold[where Pf = pts_line, OF _ _ _ cl])
         (simp_all add: CurveLoop_before_sync_line_built same_shape_pts finite_pts)
    then have b: "built (pts_loop (fst s) c) s (h1, k1)" using s s1 by (simp add: pts_loop_def)
    let ?call = "AddCurveLoop (line_tags (loop_at h1 c))"
    let ?k2 = "k1\<lparr>calls := calls k1 @ [?call]\<rparr>"
    let ?h2 = "upd_loop c (\<lambda>ob. ob\<lparr>tag := Some (reply k1 (calls k1) ?call)\<rparr>) h1"
    let ?fs = "loop_fields (loop_at ?h2 c)"
    obtain h3 k3 where s3: "fold (\<lambda>f. Field_before_sync f c) ?fs (?h2, ?k2) = (h3, k3)"
      by (cases "fold (\<lambda>f. Field_before_sync f c) ?fs (?h2, ?k2)")
    from Field_before_sync_fold[of c ?fs "(?h2, ?k2)"] s3
    have F: "k3 = ?k2" "loop_at h3 = loop_at ?h2" "point_at h3 = point_at ?h2"
      "line_at h3 = line_at ?h2" "surface_at h3 = surface_at ?h2" by simp_all
    have r: "CurveLoop_before_sync c s = (upd_loop c MeshTransaction_before_sync h3, k3)"
      using False s s1 s3 by (simp add: CurveLoop_before_sync.simps Let_def kernel_defs)
    have sub: "pts_loop (fst s) c \<subseteq> pinit h1" using builtD(2)[OF b] by simp
    show ?thesis
      unfolding r
      by (rule built_tweak[OF b])
         (auto simp: F sub npoints_other store_defs same_shape_def split: if_splits)
  qed
qed

lemma PlaneSurface_before_sync_built:
  assumes cl: "points_closed (fst s)"
  shows "built (pts_surf (fst s) a) s (PlaneSurface_before_sync a s)"
proof -
  obtain h k where s: "s = (h, k)" by (cases s)
  show ?thesis
  proof (cases "before_sync_initiated (surface_at h a)")
    case True
    from points_closedD(3)[OF cl] True s have "pts_surf (fst s) a \<subseteq> pinit (fst s)" by simp
    from built_subset[OF this] True s show ?thesis by (simp add: PlaneSurface_before_sync_done)
  next
    case False
    let ?cs = "curve_loops (surface_at h a)"
    obtain ts h1 k1 where s1: "fold PlaneSurface_before_sync_loop ?cs ([], h, k) = (ts, h1, k1)"
      by (cases "fold PlaneSurface_before_sync_loop ?cs ([], h, k)") auto
    from PlaneSurface_before_sync_loop_fold[of ?cs "([], h, k)"] s1
    have f: "fold CurveLoop_before_sync ?cs (h, k) = (h1, k1)" by simp
    have "built (\<Union>c \<in> set ?cs. pts_loop (fst s) c) s (fold CurveLoop_before_sync ?cs s)"
      by (rule built_fold[where Pf = pts_loop, OF _ _ _ cl])
         (simp_all add: CurveLoop_before_sync_built same_shape_pts finite_pts)
    then have b: "built (pts_surf (fst s) a) s (h1, k1)" using s f by (simp add: pts_surf_def)
    let ?call = "AddPlaneSurface ts"
    let ?k2 = "k1\<lparr>calls := calls k1 @ [?call]\<rparr>"
    let ?h2 = "upd_surface a (\<lambda>ob. ob\<lparr>tag := Some (reply k1 (calls k1) ?call)\<rparr>) h1"
    have r: "PlaneSurface_before_sync a s = (upd_surface a MeshTransaction_before_sync ?h2, ?k2)"
      using False s s1 by (simp add: PlaneSurface_before_sync.simps Let_def kernel_defs)
    have sub: "pts_surf (fst s) a \<subseteq> pinit h1" using builtD(2)[OF b] by simp
    show ?thesis
      unfolding r
      by (rule built_tweak[OF b])
         (auto simp: sub npoints_other store_defs same_shape_def split: if_splits)
  qed
qed

lemma before_sync_built:
  assumes "is_entity r" "points_closed (fst s)"
  shows "\<exists>s'. before_sync r s = Inr s' \<and> built (points_of (fst s) r) s s'"
proof (cases r)
  case (PointRef a)
  then show ?thesis using Point_before_sync_built[of a "fst s" "snd s"] by simp
next
  case (LineRef a)
  then show ?thesis using Line_before_sync_built[OF assms(2), of a "snd s"] by simp
next
  case (CurveLoopRef a)
  then show ?thesis using CurveLoop_before_sync_built[OF assms(2), of a] by simp
next
  case (PlaneSurfaceRef a)
  then show ?thesis using PlaneSurface_before_sync_built[OF assms(2), of a] by simp
next
  case (FieldRef a)
  with assms(1) show ?thesis by simp
qed

lemma points_of_shape: "same_shape h h' \<Longrightarrow> points_of h' r = points_of h r"
  by (cases r) (simp_all add: same_shape_pts)

lemma finite_points_of: "finite (points_of h r)"
  by (cases r) (simp_all add: finite_pts)

lemma before_sync_all_built:
  assumes "\<forall>r \<in> set rs. is_entity r" "points_closed (fst s)"
  shows "\<exists>s'. before_sync_all rs s = Inr s' \<and> built (\<Union>r \<in> set rs. points_of (fst s) r) s s'"
  using assms
proof (induction rs arbitrary: s)
  case Nil
  show ?case by (simp add: built_refl)
next
  case (Cons r rs)
  from Cons.prems have "is_entity r" by simp
  from before_sync_built[OF this Cons.prems(2)] obtain s1
    where 1: "before_sync r s = Inr s1" "built (points_of (fst s) r) s s1" by blast
  have cl: "points_closed (fst s1)" by (rule built_closed[OF Cons.prems(2) 1(2)])
  have e: "points_of (fst s1) y = points_of (fst s) y" for y
    by (rule points_of_shape[OF builtD(1)[OF 1(2)]])
  from Cons.IH[OF _ cl] Cons.prems(1) obtain s2
    where 2: "before_sync_all rs s1 = Inr s2" "built (\<Union>y \<in> set rs. points_of (fst s) y) s1 s2"
    by (auto simp: e)
  have "built (points_of (fst s) r \<union> (\<Union>y \<in> set rs. points_of (fst s) y)) s s2"
    by (rule built_trans[OF 1(2) 2(2)]) (simp_all add: finite_points_of)
  then show ?case using 1(1) 2(1) by simp
qed

lemma unconstructed_closed: "unconstructed h \<Longrightarrow> points_closed h"
proof -
  assume u: "unconstructed h"
  have "\<not> constructed h (LineRef l)" "\<not> constructed h (CurveLoopRef l)"
    "\<not> constructed h (PlaneSurfaceRef l)" for l
    using u by (simp_all add: unconstructed_def del: constructed.simps)
  then show ?thesis by (simp add: points_closed_def)
qed

lemma unconstructed_pinit: "unconstructed h \<Longrightarrow> pinit h = {}"
proof -
  assume u: "unconstructed h"
  have "\<not> constructed h (PointRef a)" for a
    using u by (simp add: unconstructed_def del: constructed.simps)
  then show ?thesis by (simp add: pinit_def)
qed

lemma npoints_new_calls:
  assumes "extends P k k'"
  shows "length (filter is_add_point (new_calls k k')) + npoints k = npoints k'"
proof -
  from assms obtain d where d: "calls k' = calls k @ d" by (rule extendsE)
  show ?thesis by (simp add: new_calls_append[OF d] npoints_def d)
qed

lemma graph_points_on_loops:
  "corners_on_loops h rs \<Longrightarrow> graph_points h rs = (\<Union>r \<in> set rs. points_of h r)"
  by (auto simp: corners_on_loops_def graph_points_def)

text \<open>
  Claim C3. For every entity graph that has not been constructed yet, whatever the number
  of lines that reference each point, the construction phase over the roots returns and
  issues exactly as many point-creation calls as the graph has distinct Point instances
  (addresses, not coordinates), and every one of them is constructed afterwards. Points
  are counted by identity: two instances with the same coordinates are two elements of
  \<open>graph_points\<close> and get a creation call each.
\<close>

theorem construction_creates_each_point_once:
  assumes ent: "\<forall>r \<in> set rs. is_entity r"
    and new: "unconstructed h"
    and cor: "corners_on_loops h rs"
  shows "\<exists>h' k'. before_sync_all rs (h, k) = Inr (h', k')
           \<and> length (filter is_add_point (new_calls k k')) = card (graph_points h rs)
           \<and> (\<forall>a \<in> graph_points h rs. before_sync_initiated (point_at h' a))"
proof -
  have cl: "points_closed (fst (h, k))" using unconstructed_closed[OF new] by simp
  from before_sync_all_built[OF ent cl] obtain h' k'
    where r: "before_sync_all rs (h, k) = Inr (h', k')"
      and b: "built (\<Union>r \<in> set rs. points_of h r) (h, k) (h', k')" by auto
  note g = graph_points_on_loops[OF cor]
  note B = builtD[OF b, simplified]
  from before_sync_all_entities[OF ent, of "(h, k)"] r
  have "extends is_phase1 k k'" by simp
  from npoints_new_calls[OF this] B(3)
  have "length (filter is_add_point (new_calls k k')) = card (graph_points h rs)"
    by (simp add: g unconstructed_pinit[OF new])
  moreover have "\<forall>a \<in> graph_points h rs. before_sync_initiated (point_at h' a)"
    using B(2) by (simp add: g unconstructed_pinit[OF new] pinit_def) blast
  ultimately show ?thesis using r by simp
qed

lemmas twin_defs = twin_heap_def Point_new_def index_def ebind_def demo_defs

theorem construction_creates_each_point_once_witness:
  "is_entity (CurveLoopRef 6)
   \<and> unconstructed twin_heap
   \<and> corners_on_loops twin_heap [CurveLoopRef 6]
   \<and> graph_points twin_heap [CurveLoopRef 6] = {0, 1, 2}
   \<and> coord (point_at twin_heap 0) = coord (point_at twin_heap 2)
   \<and> (\<exists>h' k'. before_sync_all [CurveLoopRef 6] (twin_heap, counting_kernel) = Inr (h', k')
         \<and> length (filter is_add_point (new_calls counting_kernel k')) = 3
         \<and> (\<forall>a \<in> {0, 1, 2}. before_sync_initiated (point_at h' a)))"
proof -
  have e: "\<forall>r \<in> set [CurveLoopRef 6]. is_entity r" by simp
  have u: "unconstructed twin_heap"
    unfolding unconstructed_def
  proof (intro allI impI)
    fix r assume "is_entity r"
    then show "\<not> constructed twin_heap r" by (cases r) (simp_all add: twin_defs)
  qed
  have c: "corners_on_loops twin_heap [CurveLoopRef 6]" by (simp add: corners_on_loops_def)
  have g: "graph_points twin_heap [CurveLoopRef 6] = {0, 1, 2}"
    by (simp add: graph_points_def pts_loop_def pts_line_def twin_defs insert_commute numeral_2_eq_2)
  have x: "coord (point_at twin_heap 0) = coord (point_at twin_heap 2)" by (simp add: twin_defs)
  have n: "card {0, 1, 2 :: nat} = 3" by simp
  from construction_creates_each_point_once[OF e u c, of counting_kernel]
  show ?thesis unfolding g n using e u c x by simp
qed

end
